theory Spec2Isabelle
  imports Complex_Main
begin

section \<open>DragonResist-EUV: the exposure model of \<open>models/euv_exposure.py\<close>\<close>

text \<open>
  The simulator works on numpy arrays of IEEE doubles. Here a 2D array is a list of rows
  and a cell is a real number that stands for the double nearest to it. The electron
  cascade and the development model, whose results are truncated to integers or compared
  with a threshold, are evaluated in double arithmetic: every operation rounds its exact
  result to the nearest double and overflows to an infinity. The other stages are
  evaluated over the reals. The infinities and the quiet NaN that numpy returns for
  \<open>0/0\<close>, for the square root of a negative number and for the mean of an empty array are
  values of the type \<open>npfloat\<close>.
\<close>

subsection \<open>Data model\<close>

type_synonym grid = "real list list"

datatype npfloat = Num real | PInf | NInf | NaN

datatype py_error = ZeroDivisionError | OverflowError | ValueError

text \<open>
  A function of the source that has no raising statement, no Python-level division and no
  conversion of a float to \<open>int\<close> is a total HOL function; a function that can raise
  returns \<open>py_error + 'a\<close>.
\<close>

record tool_parameters =
  wavelength_nm :: real
  numerical_aperture :: real
  illumination_sigma :: real
  dose_mJ_cm2 :: real
  exposure_time_s :: real
  source_power_W :: real
  photons_per_nm2 :: real

record resist_parameters =
  rtype :: string
  absorption_coefficient :: real
  secondary_electron_yield :: real
  electron_scattering_range_nm :: real
  chemical_amplification_factor :: real
  acid_diffusion_length_nm :: real
  quenching_factor :: real
  reaction_rate_constant :: real
  stochastic_factor :: real
  development_rate_base_nm_s :: real
  development_contrast :: real

record sim_metrics =
  effective_dose_mJ_cm2 :: real
  ler_nm :: real
  lwr_nm :: real
  cd_error_nm :: npfloat
  stochastic_defects_per_um2 :: real
  process_window_size :: real
  pattern_fidelity :: "real option"

record model =
  tool :: tool_parameters
  resist :: resist_parameters
  metrics :: sim_metrics

definition default_tool :: tool_parameters where
  "default_tool = \<lparr> wavelength_nm = 13.5, numerical_aperture = 0.33,
     illumination_sigma = 0.55, dose_mJ_cm2 = 30, exposure_time_s = 0.1,
     source_power_W = 1000, photons_per_nm2 = 2.45 * 10 ^ 15 \<rparr>"

definition default_resist :: resist_parameters where
  "default_resist = \<lparr> rtype = ''CAR'', absorption_coefficient = 0.78,
     secondary_electron_yield = 3.2, electron_scattering_range_nm = 4.8,
     chemical_amplification_factor = 500, acid_diffusion_length_nm = 5.2,
     quenching_factor = 0.15, reaction_rate_constant = 0.85, stochastic_factor = 1.25,
     development_rate_base_nm_s = 0.5, development_contrast = 4.5 \<rparr>"

text \<open>The physics constants are set by the constructor and are no parameter of it.\<close>

definition eV_per_photon :: real where
  "eV_per_photon = 92"

definition nm_per_pixel :: real where
  "nm_per_pixel = 0.5"

subsection \<open>IEEE double arithmetic\<close>

text \<open>
  A finite double is \<open>k * 2 ^ e\<close> for integers \<open>\<bar>k\<bar> < 2 ^ 53\<close> and \<open>- 1074 \<le> e \<le> 971\<close>.
  \<open>rne\<close> rounds a real to the nearest integer, a tie to the even one. \<open>ulp_exponent x\<close>
  is the exponent \<open>e\<close> of the last place of \<open>x\<close>: the one with
  \<open>2 ^ 52 \<le> \<bar>x\<bar> / 2 ^ e < 2 ^ 53\<close>, and \<open>- 1074\<close> for the subnormal numbers; the search
  for it moves the exponent by one per step, 2200 steps reach every exponent from
  \<open>- 1074\<close> to far above the largest double's. \<open>round_double x\<close> is \<open>x\<close> rounded to
  53 significant bits, to nearest and ties to even, with no upper limit of the exponent.
\<close>

definition rne :: "real \<Rightarrow> int" where
  "rne x =
     (let f = \<lfloor>x\<rfloor>
      in if x - of_int f < 1 / 2 then f
         else if x - of_int f > 1 / 2 then f + 1
         else if even f then f else f + 1)"

fun ulp_search :: "nat \<Rightarrow> real \<Rightarrow> int \<Rightarrow> int" where
  "ulp_search 0 m e = e"
| "ulp_search (Suc n) m e =
     (if 2 ^ 53 \<le> m then ulp_search n (m / 2) (e + 1)
      else if m < 2 ^ 52 \<and> - 1074 < e then ulp_search n (m * 2) (e - 1)
      else e)"

definition ulp_exponent :: "real \<Rightarrow> int" where
  "ulp_exponent x = ulp_search 2200 \<bar>x\<bar> 0"

definition round_magnitude :: "real \<Rightarrow> real" where
  "round_magnitude x = of_int (rne (x / 2 powi ulp_exponent x)) * 2 powi ulp_exponent x"

definition round_double :: "real \<Rightarrow> real" where
  "round_double x = (if x < 0 then - round_magnitude (- x) else round_magnitude x)"

text \<open>
  A parameter, a literal or a cell of an array is read as the double nearest to it. The
  result of an operation is its exact result rounded, and an infinity when the rounded
  result is beyond the largest double. The two zeros are not told apart.
\<close>

definition max_double :: real where
  "max_double = (2 ^ 53 - 1) * 2 ^ 971"

definition double_of :: "real \<Rightarrow> npfloat" where
  "double_of x = Num (round_double x)"

definition double_result :: "real \<Rightarrow> npfloat" where
  "double_result x =
     (let d = round_double x
      in if max_double < d then PInf else if d < - max_double then NInf else Num d)"

fun np_sign :: "npfloat \<Rightarrow> real" where
  "np_sign (Num a) = sgn a"
| "np_sign PInf = 1"
| "np_sign NInf = - 1"
| "np_sign NaN = 0"

definition signed_infinity :: "real \<Rightarrow> npfloat" where
  "signed_infinity s = (if s > 0 then PInf else if s < 0 then NInf else NaN)"

fun double_add :: "npfloat \<Rightarrow> npfloat \<Rightarrow> npfloat" where
  "double_add (Num a) (Num b) = double_result (a + b)"
| "double_add NaN y = NaN"
| "double_add x NaN = NaN"
| "double_add PInf NInf = NaN"
| "double_add NInf PInf = NaN"
| "double_add PInf y = PInf"
| "double_add x PInf = PInf"
| "double_add NInf y = NInf"
| "double_add x NInf = NInf"

fun double_neg :: "npfloat \<Rightarrow> npfloat" where
  "double_neg (Num a) = Num (- a)"
| "double_neg PInf = NInf"
| "double_neg NInf = PInf"
| "double_neg NaN = NaN"

definition double_sub :: "npfloat \<Rightarrow> npfloat \<Rightarrow> npfloat" where
  "double_sub x y = double_add x (double_neg y)"

fun double_mul :: "npfloat \<Rightarrow> npfloat \<Rightarrow> npfloat" where
  "double_mul (Num a) (Num b) = double_result (a * b)"
| "double_mul NaN y = NaN"
| "double_mul x NaN = NaN"
| "double_mul x y = signed_infinity (np_sign x * np_sign y)"

text \<open>numpy divides by zero with a warning; the result is an infinity, or NaN for \<open>0/0\<close>.\<close>

fun double_div :: "npfloat \<Rightarrow> npfloat \<Rightarrow> npfloat" where
  "double_div (Num a) (Num b) =
     (if b = 0 then signed_infinity (sgn a) else double_result (a / b))"
| "double_div NaN y = NaN"
| "double_div x NaN = NaN"
| "double_div (Num a) y = Num 0"
| "double_div x (Num b) = signed_infinity (np_sign x * (if b < 0 then - 1 else 1))"
| "double_div x y = NaN"

text \<open>\<open>np.exp\<close> is taken to return the double nearest to the exponential.\<close>

fun double_exp :: "npfloat \<Rightarrow> npfloat" where
  "double_exp (Num x) = double_result (exp x)"
| "double_exp PInf = PInf"
| "double_exp NInf = Num 0"
| "double_exp NaN = NaN"

fun np_positive :: "npfloat \<Rightarrow> bool" where
  "np_positive (Num v) = (0 < v)"
| "np_positive PInf = True"
| "np_positive NInf = False"
| "np_positive NaN = False"

fun is_finite :: "npfloat \<Rightarrow> bool" where
  "is_finite (Num v) = True"
| "is_finite PInf = False"
| "is_finite NInf = False"
| "is_finite NaN = False"

fun finite_value :: "npfloat \<Rightarrow> real" where
  "finite_value (Num v) = v"
| "finite_value PInf = 0"
| "finite_value NInf = 0"
| "finite_value NaN = 0"

subsection \<open>numpy helpers\<close>

definition shape_height :: "grid \<Rightarrow> nat" where
  "shape_height a = length a"

definition shape_width :: "grid \<Rightarrow> nat" where
  "shape_width a = (case a of [] \<Rightarrow> 0 | r # _ \<Rightarrow> length r)"

definition np_scale :: "grid \<Rightarrow> real \<Rightarrow> grid" where
  "np_scale a c = map (map (\<lambda>v. v * c)) a"

definition np_ones_like :: "grid \<Rightarrow> grid" where
  "np_ones_like a = map (map (\<lambda>_. 1)) a"

definition np_zeros_like :: "grid \<Rightarrow> grid" where
  "np_zeros_like a = map (map (\<lambda>_. 0)) a"

text \<open>Arrays of doubles that can hold an infinity or NaN, and the operations on them.\<close>

definition np_array :: "grid \<Rightarrow> npfloat list list" where
  "np_array a = map (map double_of) a"

definition np_multiply :: "npfloat list list \<Rightarrow> real \<Rightarrow> npfloat list list" where
  "np_multiply a c = map (map (\<lambda>v. double_mul v (double_of c))) a"

definition np_sub :: "npfloat list list \<Rightarrow> npfloat list list \<Rightarrow> npfloat list list" where
  "np_sub a b = map2 (map2 double_sub) a b"

definition np_where_pos :: "npfloat list list \<Rightarrow> real \<Rightarrow> real \<Rightarrow> grid" where
  "np_where_pos a t e = map (map (\<lambda>v. if np_positive v then t else e)) a"

definition np_sum :: "grid \<Rightarrow> real" where
  "np_sum a = sum_list (map sum_list a)"

subsection \<open>Development model\<close>

text \<open>
  Both functions are numpy expressions over whole arrays. Every array operation works
  cell by cell in double arithmetic, and the arrays in between can hold infinities: the
  exponential overflows for an acid value far below 0.5. The divisor of the rate is at
  least 1 or infinite, so the rate is a finite double for every base rate within the
  double range and every acid value up to \<open>2 ^ 1023\<close> in magnitude (lemma
  \<open>development_rate_finite\<close>); it is the cell of the rate map.
\<close>

definition calculate_development_rate :: "resist_parameters \<Rightarrow> grid \<Rightarrow> grid" where
  "calculate_development_rate rp acid_map =
     (let shifted = map (map (\<lambda>c. double_sub c (double_of 0.5))) (np_array acid_map);
          scaled = map (map (double_mul (double_of (- development_contrast rp)))) shifted;
          denominator = map (map (double_add (double_of 1))) (map (map double_exp) scaled);
          quotient = map (map (double_div (double_of (development_rate_base_nm_s rp))))
                       denominator
      in map (map finite_value) quotient)"

definition simulate_development :: "grid \<Rightarrow> real \<Rightarrow> grid" where
  "simulate_development rate_map development_time_s =
     (let development_depth = np_multiply (np_array rate_map) development_time_s;
          resist_thickness_nm = 40;
          resist_profile = np_multiply (np_array (np_ones_like rate_map)) resist_thickness_nm;
          resist_profile = np_sub resist_profile development_depth;
          pattern = np_where_pos resist_profile 1 0
      in pattern)"

definition count_zero_cells :: "grid \<Rightarrow> nat" where
  "count_zero_cells p = sum_list (map (\<lambda>row. length (filter (\<lambda>v. v = 0) row)) p)"

definition grid_size :: "grid \<Rightarrow> nat" where
  "grid_size p = sum_list (map length p)"

subsection \<open>Construction\<close>

definition initial_metrics :: sim_metrics where
  "initial_metrics = \<lparr> effective_dose_mJ_cm2 = 0, ler_nm = 0, lwr_nm = 0,
     cd_error_nm = Num 0, stochastic_defects_per_um2 = 0, process_window_size = 0,
     pattern_fidelity = None \<rparr>"

definition EUVExposureModel_init ::
  "tool_parameters option \<Rightarrow> resist_parameters option \<Rightarrow> model" where
  "EUVExposureModel_init tp rp =
     \<lparr> tool = (case tp of None \<Rightarrow> default_tool | Some t \<Rightarrow> t),
       resist = (case rp of None \<Rightarrow> default_resist | Some r \<Rightarrow> r),
       metrics = initial_metrics \<rparr>"

subsection \<open>Photon statistics\<close>

definition np_sqrt :: "real \<Rightarrow> npfloat" where
  "np_sqrt x = (if x < 0 then NaN else Num (sqrt x))"

text \<open>A numpy double divided by a finite double: a warning and NaN or an infinity at 0.\<close>

fun np_true_divide :: "npfloat \<Rightarrow> real \<Rightarrow> npfloat" where
  "np_true_divide (Num a) b =
     (if b \<noteq> 0 then Num (a / b)
      else if a = 0 then NaN else if a > 0 then PInf else NInf)"
| "np_true_divide PInf b = (if b < 0 then NInf else PInf)"
| "np_true_divide NInf b = (if b < 0 then PInf else NInf)"
| "np_true_divide NaN b = NaN"

record photon_stats =
  total_photons :: real
  shot_noise :: npfloat
  relative_shot_noise :: npfloat
  stat_photons_per_nm2 :: real

text \<open>
  \<open>dose_j_cm2 / energy_per_photon_j\<close> is a division of Python floats, which raises at a
  zero divisor; the divisor is the nonzero constant \<open>92 * 1.602e-19\<close>.
\<close>

definition calculate_photon_statistics :: "model \<Rightarrow> real \<Rightarrow> photon_stats \<times> model" where
  "calculate_photon_statistics m target_area_um2 =
     (let dose_j_cm2 = dose_mJ_cm2 (tool m) * (1 / 10 ^ 3);
          energy_per_photon_j = eV_per_photon * (1.602 / 10 ^ 19);
          photons_per_cm2 = dose_j_cm2 / energy_per_photon_j;
          per_nm2 = photons_per_cm2 * (1 / 10 ^ 14);
          m = m\<lparr>tool := (tool m)\<lparr>photons_per_nm2 := per_nm2\<rparr>\<rparr>;
          area_nm2 = target_area_um2 * 10 ^ 6;
          total = per_nm2 * area_nm2;
          shot = np_sqrt total;
          relative = np_true_divide shot total
      in (\<lparr> total_photons = total, shot_noise = shot, relative_shot_noise = relative,
             stat_photons_per_nm2 = per_nm2 \<rparr>, m))"

subsection \<open>Electron cascade\<close>

text \<open>
  \<open>random.gauss(mu, sigma)\<close> returns \<open>mu + z * sigma\<close>, in double arithmetic, for a
  standard normal deviate \<open>z\<close> of the process-global generator. The generator is the
  sequence of the deviates it will hand out and the position of the next one.
\<close>

type_synonym rng = "nat \<Rightarrow> real"

definition gauss :: "rng \<Rightarrow> nat \<Rightarrow> real \<Rightarrow> npfloat \<Rightarrow> npfloat \<times> nat" where
  "gauss g pos mu sigma =
     (double_add (double_of mu) (double_mul (double_of (g pos)) sigma), Suc pos)"

text \<open>
  Python's \<open>int\<close> of a float drops the fraction: it truncates toward zero. It raises
  OverflowError at an infinity and ValueError at NaN.
\<close>

definition py_int :: "real \<Rightarrow> int" where
  "py_int v = (if v < 0 then \<lceil>v\<rceil> else \<lfloor>v\<rfloor>)"

fun py_int_double :: "npfloat \<Rightarrow> py_error + int" where
  "py_int_double (Num v) = Inr (py_int v)"
| "py_int_double PInf = Inl OverflowError"
| "py_int_double NInf = Inl OverflowError"
| "py_int_double NaN = Inl ValueError"

text \<open>A \<open>for\<close> loop whose body can raise: the first error ends the loop.\<close>

definition for_each :: "('a \<Rightarrow> 's \<Rightarrow> py_error + 's) \<Rightarrow> 'a list \<Rightarrow> 's \<Rightarrow> py_error + 's" where
  "for_each body xs st =
     fold (\<lambda>x acc. case acc of Inl e \<Rightarrow> Inl e | Inr s \<Rightarrow> body x s) xs (Inr st)"

text \<open>
  The three nested loops of the cascade, innermost first: \<open>deposit\<close> is the bounds check
  and the increment of the target cell, \<open>scatter_electron\<close> the body of the loop over the
  electrons of a cell, \<open>cascade_cell\<close> the body of the loop over the cells of a row. The
  scattering range is divided by the nonzero constant \<open>nm_per_pixel\<close>. The counts of the
  electron map stay far below \<open>2 ^ 53\<close>, where adding 1.0 is exact.
\<close>

definition deposit :: "nat \<Rightarrow> nat \<Rightarrow> int \<Rightarrow> int \<Rightarrow> grid \<Rightarrow> grid" where
  "deposit height width nx ny electron_map =
     (if 0 \<le> nx \<and> nx < int width \<and> 0 \<le> ny \<and> ny < int height
      then electron_map[nat ny :=
             (electron_map ! nat ny)[nat nx := electron_map ! nat ny ! nat nx + 1]]
      else electron_map)"

definition scatter_electron ::
  "resist_parameters \<Rightarrow> rng \<Rightarrow> nat \<Rightarrow> nat \<Rightarrow> nat \<Rightarrow> nat \<Rightarrow> grid \<times> nat
     \<Rightarrow> py_error + grid \<times> nat" where
  "scatter_electron rp g height width x y st =
     (let (electron_map, pos) = st;
          sigma = double_div (double_of (electron_scattering_range_nm rp))
                    (double_of nm_per_pixel);
          (gx, pos) = gauss g pos 0 sigma
      in case py_int_double gx of
           Inl e \<Rightarrow> Inl e
         | Inr dx \<Rightarrow>
             let (gy, pos) = gauss g pos 0 sigma
             in case py_int_double gy of
                  Inl e \<Rightarrow> Inl e
                | Inr dy \<Rightarrow>
                    let nx = int x + dx;
                        ny = int y + dy
                    in Inr (deposit height width nx ny electron_map, pos))"

definition cascade_cell ::
  "resist_parameters \<Rightarrow> rng \<Rightarrow> grid \<Rightarrow> nat \<Rightarrow> nat \<Rightarrow> nat \<Rightarrow> nat \<Rightarrow> grid \<times> nat
     \<Rightarrow> py_error + grid \<times> nat" where
  "cascade_cell rp g photon_map height width y x st =
     (if np_positive (double_of (photon_map ! y ! x))
      then case py_int_double (double_mul (double_of (photon_map ! y ! x))
                                 (double_of (secondary_electron_yield rp))) of
             Inl e \<Rightarrow> Inl e
           | Inr num_electrons \<Rightarrow>
               for_each (\<lambda>_. scatter_electron rp g height width x y) [0..<nat num_electrons] st
      else Inr st)"

definition simulate_electron_cascade ::
  "resist_parameters \<Rightarrow> rng \<Rightarrow> nat \<Rightarrow> grid \<Rightarrow> py_error + grid \<times> nat" where
  "simulate_electron_cascade rp g pos photon_map =
     (let electron_map = np_zeros_like photon_map;
          height = shape_height photon_map;
          width = shape_width photon_map
      in for_each (\<lambda>y. for_each (cascade_cell rp g photon_map height width y) [0..<width])
           [0..<height] (electron_map, pos))"

subsection \<open>Chemical reactions and diffusion\<close>

definition set_cell :: "grid \<Rightarrow> nat \<Rightarrow> nat \<Rightarrow> real \<Rightarrow> grid" where
  "set_cell a y x v = a[y := (a ! y)[x := v]]"

definition simulate_chemical_reactions :: "resist_parameters \<Rightarrow> grid \<Rightarrow> grid" where
  "simulate_chemical_reactions rp electron_map =
     (let height = shape_height electron_map;
          width = shape_width electron_map;
          acid_map = replicate height (replicate width 0)
      in if rtype rp = ''CAR''
         then fold (\<lambda>y. fold (\<lambda>x acid_map.
                if electron_map ! y ! x > 0
                then let acid_generated = electron_map ! y ! x * chemical_amplification_factor rp;
                         acid_concentration = acid_generated * (1 - quenching_factor rp);
                         acid_concentration = acid_concentration * reaction_rate_constant rp
                     in set_cell acid_map y x acid_concentration
                else acid_map) [0..<width]) [0..<height] acid_map
         else if rtype rp = ''MeOx''
         then fold (\<lambda>y. fold (\<lambda>x acid_map.
                if electron_map ! y ! x > 0
                then let reduction = electron_map ! y ! x * 0.85
                     in set_cell acid_map y x reduction
                else acid_map) [0..<width]) [0..<height] acid_map
         else acid_map)"

text \<open>
  \<open>scipy.ndimage.gaussian_filter\<close> is library code outside the repository: every function
  that blurs takes it as the parameter \<open>gf\<close>, applied to the sigma and the array.
\<close>

type_synonym gaussian_filter = "real \<Rightarrow> grid \<Rightarrow> grid"

definition simulate_acid_diffusion :: "gaussian_filter \<Rightarrow> resist_parameters \<Rightarrow> grid \<Rightarrow> grid" where
  "simulate_acid_diffusion gf rp acid_map =
     (let sigma_pixels = acid_diffusion_length_nm rp / nm_per_pixel;
          diffused_acid = gf sigma_pixels acid_map
      in diffused_acid)"

subsection \<open>Stochastic metrics\<close>

definition np_diff :: "'a::minus list \<Rightarrow> 'a list" where
  "np_diff xs = map2 (\<lambda>u v. v - u) xs (tl xs)"

definition edge_positions_of :: "grid \<Rightarrow> nat list" where
  "edge_positions_of pattern_map =
     (let edges = map np_diff pattern_map
      in concat (map (\<lambda>r. filter (\<lambda>x. r ! x = 1) [0..<length r]) edges))"

definition np_mean :: "real list \<Rightarrow> npfloat" where
  "np_mean xs = (if xs = [] then NaN else Num (sum_list xs / real (length xs)))"

text \<open>\<open>np.std\<close> is only called on two or more positions.\<close>

definition np_std :: "real list \<Rightarrow> real" where
  "np_std xs =
     (let n = real (length xs);
          mu = sum_list xs / n
      in sqrt (sum_list (map (\<lambda>v. (v - mu)\<^sup>2) xs) / n))"

fun np_times :: "npfloat \<Rightarrow> real \<Rightarrow> npfloat" where
  "np_times (Num a) b = Num (a * b)"
| "np_times PInf b = (if b = 0 then NaN else if b > 0 then PInf else NInf)"
| "np_times NInf b = (if b = 0 then NaN else if b > 0 then NInf else PInf)"
| "np_times NaN b = NaN"

fun np_minus :: "npfloat \<Rightarrow> real \<Rightarrow> npfloat" where
  "np_minus (Num a) b = Num (a - b)"
| "np_minus v b = v"

fun np_abs :: "npfloat \<Rightarrow> npfloat" where
  "np_abs (Num a) = Num \<bar>a\<bar>"
| "np_abs NInf = PInf"
| "np_abs v = v"

fun np_less :: "npfloat \<Rightarrow> real \<Rightarrow> bool" where
  "np_less (Num a) b = (a < b)"
| "np_less NInf b = True"
| "np_less v b = False"

definition neighbourhood_sum :: "grid \<Rightarrow> nat \<Rightarrow> nat \<Rightarrow> real" where
  "neighbourhood_sum pattern_map y x =
     np_sum (map (\<lambda>r. take 3 (drop (x - 1) r)) (take 3 (drop (y - 1) pattern_map)))"

definition count_defects :: "grid \<Rightarrow> nat" where
  "count_defects pattern_map =
     fold (\<lambda>y. fold (\<lambda>x defects.
        if pattern_map ! y ! x = 1 \<and> neighbourhood_sum pattern_map y x \<le> 2
        then defects + 1
        else if pattern_map ! y ! x = 0 \<and> neighbourhood_sum pattern_map y x \<ge> 8
        then defects + 1
        else defects) [1..<shape_width pattern_map - 1])
       [1..<shape_height pattern_map - 1] 0"

record stochastic_metrics =
  m_ler_nm :: real
  m_cd_error_nm :: npfloat
  m_stochastic_defects_per_um2 :: real
  m_pattern_fidelity :: real

text \<open>
  The defect density divides the Python integer \<open>defects\<close> by a Python float, which raises
  ZeroDivisionError when the array has no cell.
\<close>

definition calculate_stochastic_metrics :: "grid \<Rightarrow> real \<Rightarrow> py_error + stochastic_metrics" where
  "calculate_stochastic_metrics pattern_map target_cd_nm =
     (let edge_positions = edge_positions_of pattern_map;
          ler = (if length edge_positions > 1
                 then np_std (map real edge_positions) * nm_per_pixel
                 else 0);
          measured_cd = np_times (np_mean (map real_of_int (np_diff (map int edge_positions))))
                          nm_per_pixel;
          cd_error = np_minus measured_cd target_cd_nm;
          defects = count_defects pattern_map;
          area = real (shape_height pattern_map * shape_width pattern_map)
                   * nm_per_pixel\<^sup>2 * (1 / 10 ^ 6)
      in if area = 0 then Inl ZeroDivisionError
         else let defect_density = real defects / area
              in Inr \<lparr> m_ler_nm = ler, m_cd_error_nm = cd_error,
                       m_stochastic_defects_per_um2 = defect_density,
                       m_pattern_fidelity = 1 - defect_density * 0.01 \<rparr>)"

subsection \<open>The full pipeline\<close>

record results =
  res_photon_stats :: photon_stats
  aerial_image :: grid
  photon_map :: grid
  electron_map :: grid
  acid_map :: grid
  diffused_acid :: grid
  rate_map :: grid
  final_pattern :: grid
  res_metrics :: sim_metrics

definition merge_metrics :: "sim_metrics \<Rightarrow> stochastic_metrics \<Rightarrow> sim_metrics" where
  "merge_metrics ms sm =
     ms\<lparr> ler_nm := m_ler_nm sm, cd_error_nm := m_cd_error_nm sm,
         stochastic_defects_per_um2 := m_stochastic_defects_per_um2 sm,
         pattern_fidelity := Some (m_pattern_fidelity sm) \<rparr>"

text \<open>
  The state the pipeline reads and writes, the model instance and the position of the
  random generator, is passed in and returned. The function returns the metrics record of
  the instance itself; the model returns its value at the time of the return.
\<close>

definition run_full_simulation ::
  "gaussian_filter \<Rightarrow> rng \<Rightarrow> nat \<Rightarrow> model \<Rightarrow> grid \<Rightarrow> real \<Rightarrow> real
     \<Rightarrow> py_error + (results \<times> model \<times> nat)" where
  "run_full_simulation gf g pos m target_pattern target_cd_nm development_time_s =
     (let (stats, m) = calculate_photon_statistics m
                         (np_sum target_pattern * nm_per_pixel\<^sup>2 * (1 / 10 ^ 6));
          sigma_psf = 15 / nm_per_pixel;
          aerial = gf sigma_psf target_pattern;
          photons = np_scale (np_scale aerial (absorption_coefficient (resist m)))
                      (stat_photons_per_nm2 stats)
      in case simulate_electron_cascade (resist m) g pos photons of
           Inl e \<Rightarrow> Inl e
         | Inr (electrons, pos) \<Rightarrow>
             let acid = simulate_chemical_reactions (resist m) electrons;
                 diffused = simulate_acid_diffusion gf (resist m) acid;
                 rates = calculate_development_rate (resist m) diffused;
                 final = simulate_development rates development_time_s
             in case calculate_stochastic_metrics final target_cd_nm of
                  Inl e \<Rightarrow> Inl e
                | Inr sm \<Rightarrow>
                    let ms = merge_metrics (metrics m) sm;
                        ms = ms\<lparr>effective_dose_mJ_cm2 := dose_mJ_cm2 (tool m)\<rparr>;
                        m = m\<lparr>metrics := ms\<rparr>
                    in Inr (\<lparr> res_photon_stats = stats, aerial_image = aerial,
                               photon_map = photons, electron_map = electrons,
                               acid_map = acid, diffused_acid = diffused, rate_map = rates,
                               final_pattern = final, res_metrics = ms \<rparr>, m, pos))"

subsection \<open>Process window\<close>

definition np_linspace :: "real \<Rightarrow> real \<Rightarrow> nat \<Rightarrow> real list" where
  "np_linspace a b n =
     (if n = 1 then [a] else map (\<lambda>i. a + real i * ((b - a) / real (n - 1))) [0..<n])"

text \<open>The end of a Python slice: a negative end counts from the back, then it is clipped.\<close>

definition slice_stop :: "int \<Rightarrow> nat \<Rightarrow> nat" where
  "slice_stop s n =
     (let s = (if s < 0 then s + int n else s);
          s = (if s < 0 then 0 else s);
          s = (if s > int n then int n else s)
      in nat s)"

definition line_target :: "real \<Rightarrow> grid" where
  "line_target target_cd_nm =
     (let height = 1000;
          width = 1000;
          line_width = py_int (target_cd_nm / nm_per_pixel);
          lo = width div 2;
          hi = slice_stop (int (width div 2) + line_width) width
      in replicate height (map (\<lambda>x. if lo \<le> x \<and> x < hi then 1 else 0) [0..<width]))"

text \<open>
  The sweep keeps the two result matrices, the model instance and the generator position;
  \<open>sweep_point\<close> is the body of the inner loop, at dose index i and focus index j. An error
  raised by a run ends the sweep.
\<close>

record sweep_state =
  sw_cd_errors :: "npfloat list list"
  sw_lers :: "real list list"
  sw_model :: model
  sw_pos :: nat

definition sweep_point ::
  "gaussian_filter \<Rightarrow> rng \<Rightarrow> grid \<Rightarrow> real \<Rightarrow> nat \<Rightarrow> real \<Rightarrow> nat \<times> real
     \<Rightarrow> py_error + sweep_state \<Rightarrow> py_error + sweep_state" where
  "sweep_point gf g target_pattern target_cd_nm i dose jf acc =
     (case acc of
        Inl e \<Rightarrow> Inl e
      | Inr st \<Rightarrow>
          let (j, focus) = jf;
              m = sw_model st;
              original_dose = dose_mJ_cm2 (tool m);
              m = m\<lparr>tool := (tool m)\<lparr>dose_mJ_cm2 := dose\<rparr>\<rparr>;
              original_sigma = 15 / nm_per_pixel;
              focus_sigma = original_sigma * (1 + \<bar>focus\<bar> / 100)
          in case run_full_simulation gf g (sw_pos st) m target_pattern target_cd_nm 30 of
               Inl e \<Rightarrow> Inl e
             | Inr (res, m, pos) \<Rightarrow>
                 Inr \<lparr> sw_cd_errors = (sw_cd_errors st)
                          [i := (sw_cd_errors st ! i)[j := cd_error_nm (res_metrics res)]],
                       sw_lers = (sw_lers st)
                          [i := (sw_lers st ! i)[j := ler_nm (res_metrics res)]],
                       sw_model = m\<lparr>tool := (tool m)\<lparr>dose_mJ_cm2 := original_dose\<rparr>\<rparr>,
                       sw_pos = pos \<rparr>)"

record process_window_result =
  dose_values :: "real list"
  focus_values :: "real list"
  cd_errors :: "npfloat list list"
  lers :: "real list list"
  process_window :: "bool list list"
  window_area :: npfloat
  pw_target_cd_nm :: real

definition calculate_process_window ::
  "gaussian_filter \<Rightarrow> rng \<Rightarrow> nat \<Rightarrow> model \<Rightarrow> real \<Rightarrow> (real \<times> real) option
     \<Rightarrow> (real \<times> real) option \<Rightarrow> nat
     \<Rightarrow> py_error + (process_window_result \<times> model \<times> nat)" where
  "calculate_process_window gf g pos m target_cd_nm dose_range focus_range steps =
     (let dose_range = (case dose_range of
                          None \<Rightarrow> (dose_mJ_cm2 (tool m) * 0.8, dose_mJ_cm2 (tool m) * 1.2)
                        | Some r \<Rightarrow> r);
          focus_range = (case focus_range of None \<Rightarrow> (- 40, 40) | Some r \<Rightarrow> r);
          doses = np_linspace (fst dose_range) (snd dose_range) steps;
          focuses = np_linspace (fst focus_range) (snd focus_range) steps;
          target_pattern = line_target target_cd_nm;
          start = \<lparr> sw_cd_errors = replicate steps (replicate steps (Num 0)),
                    sw_lers = replicate steps (replicate steps 0),
                    sw_model = m, sw_pos = pos \<rparr>
      in case fold (\<lambda>(i, dose). fold (sweep_point gf g target_pattern target_cd_nm i dose)
                                   (enumerate 0 focuses))
                (enumerate 0 doses) (Inr start) of
           Inl e \<Rightarrow> Inl e
         | Inr st \<Rightarrow>
             let cd_window = map (map (\<lambda>c. np_less (np_abs c) (target_cd_nm * 0.1)))
                               (sw_cd_errors st);
                 ler_window = map (map (\<lambda>l. l < 1.5)) (sw_lers st);
                 window = map2 (map2 (\<and>)) cd_window ler_window;
                 area = np_true_divide
                          (Num (real (sum_list (map (\<lambda>r. length (filter id r)) window))))
                          (real (steps * steps))
             in Inr (\<lparr> dose_values = doses, focus_values = focuses,
                        cd_errors = sw_cd_errors st, lers = sw_lers st,
                        process_window = window, window_area = area,
                        pw_target_cd_nm = target_cd_nm \<rparr>, sw_model st, sw_pos st))"

subsection \<open>The cascade as the specification words it\<close>

text \<open>
  A numpy array has rows of one length. The specification of the cascade stage: a cell of
  value \<open>v\<close> is the source of \<open>count v yield\<close> electrons; each electron draws a
  displacement in x and one in y, from a standard normal deviate \<open>z\<close> each, which becomes
  the cell offset \<open>offset rp z\<close>; every target cell holds the number of electrons that
  land on it, and electrons landing outside of the grid are in no cell. Electrons are
  numbered in the order of the loops, electron k taking deviates 2k and 2k + 1 of the
  generator.

  The specification's rules are \<open>floor_count\<close>, floor(value * yield) at a positive value,
  and \<open>nearest_offset\<close>, the deviate times the scattering range in cells, rounded to the
  nearest integer. \<open>double_count\<close> and \<open>double_offset\<close> truncate toward zero the double
  product and the double displacement \<open>0 + z * sigma\<close>.
\<close>

definition rectangular :: "grid \<Rightarrow> bool" where
  "rectangular a = list_all (\<lambda>r. length r = shape_width a) a"

definition floor_count :: "real \<Rightarrow> real \<Rightarrow> nat" where
  "floor_count v yield = (if v > 0 then nat \<lfloor>v * yield\<rfloor> else 0)"

definition nearest_offset :: "resist_parameters \<Rightarrow> real \<Rightarrow> int" where
  "nearest_offset rp z = round (z * (electron_scattering_range_nm rp / nm_per_pixel))"

definition double_count :: "real \<Rightarrow> real \<Rightarrow> nat" where
  "double_count v yield =
     (if np_positive (double_of v)
      then nat (py_int (finite_value (double_mul (double_of v) (double_of yield))))
      else 0)"

definition displacement :: "resist_parameters \<Rightarrow> real \<Rightarrow> npfloat" where
  "displacement rp z =
     double_add (double_of 0)
       (double_mul (double_of z)
          (double_div (double_of (electron_scattering_range_nm rp)) (double_of nm_per_pixel)))"

definition double_offset :: "resist_parameters \<Rightarrow> real \<Rightarrow> int" where
  "double_offset rp z = py_int (finite_value (displacement rp z))"

definition cell_electrons ::
  "(real \<Rightarrow> real \<Rightarrow> nat) \<Rightarrow> resist_parameters \<Rightarrow> grid \<Rightarrow> nat \<Rightarrow> nat \<Rightarrow> (nat \<times> nat) list" where
  "cell_electrons count rp pm y x =
     replicate (count (pm ! y ! x) (secondary_electron_yield rp)) (x, y)"

definition electron_sources ::
  "(real \<Rightarrow> real \<Rightarrow> nat) \<Rightarrow> resist_parameters \<Rightarrow> grid \<Rightarrow> (nat \<times> nat) list" where
  "electron_sources count rp pm =
     concat (map (\<lambda>y. concat (map (cell_electrons count rp pm y) [0..<shape_width pm]))
       [0..<shape_height pm])"

definition electron_target ::
  "(resist_parameters \<Rightarrow> real \<Rightarrow> int) \<Rightarrow> resist_parameters \<Rightarrow> rng \<Rightarrow> nat
     \<Rightarrow> nat \<times> (nat \<times> nat) \<Rightarrow> int \<times> int" where
  "electron_target offset rp g pos ks =
     (let k = fst ks;
          x = fst (snd ks);
          y = snd (snd ks)
      in (int x + offset rp (g (pos + 2 * k)),
          int y + offset rp (g (pos + 2 * k + 1))))"

text \<open>
  One electron of the specified cascade, as a step on the electron map and the position of
  the generator: it lands on its target and uses two deviates.
\<close>

definition place_electron ::
  "(resist_parameters \<Rightarrow> real \<Rightarrow> int) \<Rightarrow> resist_parameters \<Rightarrow> rng \<Rightarrow> nat \<Rightarrow> nat
     \<Rightarrow> nat \<times> nat \<Rightarrow> grid \<times> nat \<Rightarrow> grid \<times> nat" where
  "place_electron offset rp g height width s st =
     (let t = electron_target offset rp g (snd st) (0, s)
      in (deposit height width (fst t) (snd t) (fst st), snd st + 2))"

definition deposited :: "nat \<Rightarrow> nat \<Rightarrow> (int \<times> int) list \<Rightarrow> grid" where
  "deposited height width targets =
     map (\<lambda>y. map (\<lambda>x. real (count_list targets (int x, int y))) [0..<width]) [0..<height]"

definition cascade_spec ::
  "(real \<Rightarrow> real \<Rightarrow> nat) \<Rightarrow> (resist_parameters \<Rightarrow> real \<Rightarrow> int) \<Rightarrow> resist_parameters
     \<Rightarrow> rng \<Rightarrow> nat \<Rightarrow> grid \<Rightarrow> grid \<times> nat" where
  "cascade_spec count offset rp g pos pm =
     (let sources = electron_sources count rp pm;
          targets = map (electron_target offset rp g pos) (enumerate 0 sources)
      in (deposited (shape_height pm) (shape_width pm) targets, pos + 2 * length sources))"

section \<open>Properties\<close>

subsection \<open>Rounding to the nearest integer and to a double\<close>

lemma rne_of_int: "rne (of_int k) = k"
  by (simp add: rne_def)

lemma rne_between: "\<lfloor>x\<rfloor> \<le> rne x \<and> rne x \<le> \<lfloor>x\<rfloor> + 1"
  by (simp add: rne_def Let_def)

lemma rne_mono:
  assumes "x \<le> y"
  shows "rne x \<le> rne y"
proof (cases "\<lfloor>x\<rfloor> = \<lfloor>y\<rfloor>")
  case True
  with assms show ?thesis by (auto simp: rne_def Let_def)
next
  case False
  with assms have "\<lfloor>x\<rfloor> + 1 \<le> \<lfloor>y\<rfloor>" using floor_mono [of x y] by linarith
  with rne_between [of x] rne_between [of y] show ?thesis by linarith
qed

lemma rne_le_int: "x \<le> of_int k \<Longrightarrow> rne x \<le> k"
  using rne_mono [of x "of_int k"] by (simp add: rne_of_int)

lemma rne_ge_int: "of_int k \<le> x \<Longrightarrow> k \<le> rne x"
  using rne_mono [of "of_int k" x] by (simp add: rne_of_int)

subsection \<open>The exponent of the last place\<close>

lemma ulp_search_lower: "- 1074 \<le> e \<Longrightarrow> - 1074 \<le> ulp_search n m e"
  by (induction n arbitrary: m e) auto

lemma ulp_search_upper: "ulp_search n m e \<le> e + int n"
proof (induction n arbitrary: m e)
  case 0
  then show ?case by simp
next
  case (Suc n)
  from Suc.IH [where m = "m / 2" and e = "e + 1"] Suc.IH [where m = "m * 2" and e = "e - 1"]
  show ?case by auto
qed

lemma ulp_search_down: "ulp_search n m e \<ge> e - int n"
proof (induction n arbitrary: m e)
  case 0
  then show ?case by simp
next
  case (Suc n)
  from Suc.IH [where m = "m / 2" and e = "e + 1"] Suc.IH [where m = "m * 2" and e = "e - 1"]
  show ?case by auto
qed

lemma two_powi_Suc: "(2::real) powi (e + 1) = 2 * 2 powi e"
  by (simp add: power_int_add)

lemma two_powi_pred: "(2::real) powi (e - 1) = 2 powi e / 2"
  by (simp add: power_int_diff)

lemma two_powi_mono: "a \<le> b \<Longrightarrow> (2::real) powi a \<le> 2 powi b"
  by (rule power_int_increasing) simp_all

lemma ulp_search_normal:
  assumes "2 ^ 52 \<le> m \<or> e + 1074 \<le> int n"
    and "- 1074 < ulp_search n m e"
  shows "2 ^ 52 * 2 powi (ulp_search n m e) \<le> m * 2 powi e"
  using assms
proof (induction n arbitrary: m e)
  case 0
  then show ?case by auto
next
  case (Suc n)
  show ?case
  proof (cases "2 ^ 53 \<le> m")
    case True
    then have "2 ^ 52 \<le> m / 2" by simp
    with Suc.IH [of "m / 2" "e + 1"] Suc.prems(2) True
    show ?thesis by (simp add: two_powi_Suc)
  next
    case False
    show ?thesis
    proof (cases "m < 2 ^ 52 \<and> - 1074 < e")
      case True
      with Suc.prems(1) have "e - 1 + 1074 \<le> int n" by auto
      with Suc.IH [of "m * 2" "e - 1"] Suc.prems(2) True False
      show ?thesis by (simp add: two_powi_pred)
    next
      case stay: False
      with False Suc.prems show ?thesis by auto
    qed
  qed
qed

lemma ulp_search_below:
  assumes "0 \<le> m"
  shows "m * 2 powi e < 2 ^ 53 * 2 powi (ulp_search n m e) \<or> ulp_search n m e = e + int n"
  using assms
proof (induction n arbitrary: m e)
  case 0
  then show ?case by simp
next
  case (Suc n)
  show ?case
  proof (cases "2 ^ 53 \<le> m")
    case True
    then have u: "ulp_search (Suc n) m e = ulp_search n (m / 2) (e + 1)" by simp
    from Suc.IH [of "m / 2" "e + 1"] Suc.prems
    have "m / 2 * 2 powi (e + 1) < 2 ^ 53 * 2 powi ulp_search n (m / 2) (e + 1)
          \<or> ulp_search n (m / 2) (e + 1) = e + 1 + int n" by simp
    then show ?thesis unfolding u by (auto simp: two_powi_Suc)
  next
    case False
    show ?thesis
    proof (cases "m < 2 ^ 52 \<and> - 1074 < e")
      case True
      let ?u = "ulp_search n (m * 2) (e - 1)"
      have "e - 1 - int n \<le> ?u" by (rule ulp_search_down)
      have u: "ulp_search (Suc n) m e = ?u" using True False by simp
      from Suc.IH [of "m * 2" "e - 1"] Suc.prems
      consider "m * 2 * 2 powi (e - 1) < 2 ^ 53 * 2 powi ?u" | "?u = e - 1 + int n" by auto
      then show ?thesis
      proof cases
        case 1
        then show ?thesis unfolding u by (simp add: two_powi_pred)
      next
        case 2
        then have "e - 1 \<le> ?u" by simp
        then have "(2::real) powi (e - 1) \<le> 2 powi ?u" by (rule two_powi_mono)
        moreover have "m * 2 powi e < 2 ^ 53 * 2 powi (e - 1)"
          using True by (simp add: two_powi_pred)
        ultimately have "m * 2 powi e < 2 ^ 53 * 2 powi ?u"
          by (smt (verit) mult_left_mono zero_le_numeral zero_le_power)
        then show ?thesis unfolding u by simp
      qed
    next
      case stay: False
      with False Suc.prems show ?thesis by auto
    qed
  qed
qed

lemma ulp_exponent_range: "- 1074 \<le> ulp_exponent x \<and> ulp_exponent x \<le> 2200"
  using ulp_search_lower [of 0 2200 "\<bar>x\<bar>"] ulp_search_upper [of 2200 "\<bar>x\<bar>" 0]
  by (simp add: ulp_exponent_def)

lemma ulp_exponent_normal:
  "- 1074 < ulp_exponent x \<Longrightarrow> 2 ^ 52 * 2 powi ulp_exponent x \<le> \<bar>x\<bar>"
  using ulp_search_normal [of "\<bar>x\<bar>" 0 2200] by (simp add: ulp_exponent_def)

lemma ulp_exponent_below:
  "ulp_exponent x < 2200 \<Longrightarrow> \<bar>x\<bar> < 2 ^ 53 * 2 powi ulp_exponent x"
  using ulp_search_below [of "\<bar>x\<bar>" 0 2200] by (auto simp: ulp_exponent_def)

lemma ulp_exponentI:
  assumes "- 1074 \<le> e" and "e < 2200"
    and "\<bar>x\<bar> < 2 ^ 53 * 2 powi e"
    and "2 ^ 52 * 2 powi e \<le> \<bar>x\<bar> \<or> e = - 1074"
  shows "ulp_exponent x = e"
proof (rule ccontr)
  assume ne: "ulp_exponent x \<noteq> e"
  let ?u = "ulp_exponent x"
  show False
  proof (cases "e < ?u")
    case True
    then have "- 1074 < ?u" using assms(1) by simp
    then have "2 ^ 52 * 2 powi ?u \<le> \<bar>x\<bar>" by (rule ulp_exponent_normal)
    moreover have "(2::real) powi (e + 1) \<le> 2 powi ?u" using True by (intro two_powi_mono) simp
    ultimately have "2 ^ 52 * (2 * 2 powi e) \<le> \<bar>x\<bar>"
      by (simp add: two_powi_Suc)
    with assms(3) show False by simp
  next
    case False
    with ne have lt: "?u < e" by simp
    then have "?u < 2200" using assms(2) by simp
    then have "\<bar>x\<bar> < 2 ^ 53 * 2 powi ?u" by (rule ulp_exponent_below)
    moreover have "(2::real) powi (?u + 1) \<le> 2 powi e" using lt by (intro two_powi_mono) simp
    then have "2 ^ 53 * 2 powi ?u \<le> 2 ^ 52 * (2::real) powi e"
      by (simp add: two_powi_Suc)
    moreover have "- 1074 < e" using lt ulp_exponent_range [of x] by simp
    ultimately show False using assms(4) by simp
  qed
qed


subsection \<open>Rounding to a double\<close>

lemma round_magnitude_nonneg: "0 \<le> x \<Longrightarrow> 0 \<le> round_magnitude x"
proof -
  assume "0 \<le> x"
  then have "of_int 0 \<le> x / 2 powi ulp_exponent x" by simp
  then have "0 \<le> rne (x / 2 powi ulp_exponent x)" by (rule rne_ge_int)
  then show ?thesis by (simp add: round_magnitude_def)
qed

lemma round_magnitude_mono:
  assumes "0 \<le> a" and "a \<le> b"
  shows "round_magnitude a \<le> round_magnitude b"
proof -
  let ?ua = "ulp_exponent a" and ?ub = "ulp_exponent b"
  let ?pa = "(2::real) powi ?ua" and ?pb = "(2::real) powi ?ub"
  have pa: "0 < ?pa" and pb: "0 < ?pb" by simp_all
  have abs: "\<bar>a\<bar> = a" "\<bar>b\<bar> = b" using assms by simp_all
  consider "?ua = ?ub" | "?ua < ?ub" | "?ub < ?ua" by linarith
  then show ?thesis
  proof cases
    case 1
    have "a / ?pb \<le> b / ?pb" using assms(2) pb by (simp add: divide_right_mono)
    then have "rne (a / ?pb) \<le> rne (b / ?pb)" by (rule rne_mono)
    then have "of_int (rne (a / ?pb)) * ?pb \<le> of_int (rne (b / ?pb)) * ?pb"
      using pb by simp
    then show ?thesis by (simp add: round_magnitude_def 1)
  next
    case 2
    then have "?ua < 2200" using ulp_exponent_range [of b] by simp
    then have "a < 2 ^ 53 * ?pa" using ulp_exponent_below [of a] abs by simp
    then have "a / ?pa \<le> of_int (2 ^ 53)" using pa by (simp add: field_simps)
    then have "rne (a / ?pa) \<le> 2 ^ 53" by (rule rne_le_int)
    then have "(of_int (rne (a / ?pa)) :: real) \<le> 2 ^ 53"
      by (metis of_int_le_iff of_int_numeral of_int_power)
    then have ra: "round_magnitude a \<le> 2 ^ 53 * ?pa"
      using pa by (simp add: round_magnitude_def)
    have "- 1074 < ?ub" using 2 ulp_exponent_range [of a] by simp
    then have "2 ^ 52 * ?pb \<le> b" using ulp_exponent_normal [of b] abs by simp
    then have "of_int (2 ^ 52) \<le> b / ?pb" using pb by (simp add: field_simps)
    then have "2 ^ 52 \<le> rne (b / ?pb)" by (rule rne_ge_int)
    then have "(2 ^ 52 :: real) \<le> of_int (rne (b / ?pb))"
      by (metis of_int_le_iff of_int_numeral of_int_power)
    then have rb: "2 ^ 52 * ?pb \<le> round_magnitude b"
      using pb by (simp add: round_magnitude_def)
    have "(2::real) powi (?ua + 1) \<le> ?pb" using 2 by (intro two_powi_mono) simp
    then have "2 ^ 53 * ?pa \<le> 2 ^ 52 * ?pb" by (simp add: two_powi_Suc)
    with ra rb show ?thesis by linarith
  next
    case 3
    then have "- 1074 < ?ua" using ulp_exponent_range [of b] by simp
    then have "2 ^ 52 * ?pa \<le> a" using ulp_exponent_normal [of a] abs by simp
    moreover have "?ub < 2200" using 3 ulp_exponent_range [of a] by simp
    then have "b < 2 ^ 53 * ?pb" using ulp_exponent_below [of b] abs by simp
    moreover have "(2::real) powi (?ub + 1) \<le> ?pa" using 3 by (intro two_powi_mono) simp
    then have "2 ^ 53 * ?pb \<le> 2 ^ 52 * ?pa" by (simp add: two_powi_Suc)
    ultimately show ?thesis using assms(2) by linarith
  qed
qed

lemma round_magnitude_0: "round_magnitude 0 = 0"
  by (simp add: round_magnitude_def rne_def)

lemma round_double_0: "round_double 0 = 0"
  by (simp add: round_double_def round_magnitude_0)

lemma round_double_minus: "round_double (- x) = - round_double x"
  by (cases "x = 0") (auto simp: round_double_def round_magnitude_0)

lemma round_double_nonneg: "0 \<le> x \<Longrightarrow> 0 \<le> round_double x"
  by (simp add: round_double_def round_magnitude_nonneg)

lemma round_double_nonpos: "x \<le> 0 \<Longrightarrow> round_double x \<le> 0"
  using round_double_nonneg [of "- x"] by (simp add: round_double_minus)

lemma round_double_mono:
  assumes "a \<le> b"
  shows "round_double a \<le> round_double b"
proof (cases "0 \<le> a")
  case True
  with assms show ?thesis by (simp add: round_double_def round_magnitude_mono)
next
  case False
  show ?thesis
  proof (cases "0 \<le> b")
    case True
    from False have "round_double a \<le> 0" by (intro round_double_nonpos) simp
    with round_double_nonneg [OF True] show ?thesis by simp
  next
    case neg: False
    with assms have "round_magnitude (- b) \<le> round_magnitude (- a)"
      by (intro round_magnitude_mono) simp_all
    with False neg show ?thesis by (simp add: round_double_def)
  qed
qed

subsection \<open>Doubles round to themselves\<close>

lemma round_magnitude_exact:
  assumes "0 \<le> k" and "k \<le> 2 ^ 53" and "- 1074 \<le> e" and "e < 2148"
  shows "round_magnitude (of_int k * 2 powi e) = of_int k * 2 powi e"
proof -
  let ?x = "of_int k * (2::real) powi e"
  let ?u = "ulp_exponent ?x"
  have x: "\<bar>?x\<bar> = ?x" using assms(1) by simp
  have k: "(of_int k :: real) \<le> 2 ^ 53"
    using assms(2) by (metis of_int_le_iff of_int_numeral of_int_power)
  have le: "?u \<le> e \<or> k = 2 ^ 53"
  proof (rule ccontr)
    assume "\<not> (?u \<le> e \<or> k = 2 ^ 53)"
    then have lt: "e < ?u" and "k < 2 ^ 53" using assms(2) by simp_all
    then have k': "(of_int k :: real) < 2 ^ 53"
      by (metis of_int_less_iff of_int_numeral of_int_power)
    from lt assms(3) have "- 1074 < ?u" by simp
    then have "2 ^ 52 * 2 powi ?u \<le> ?x" using ulp_exponent_normal [of ?x] x by simp
    moreover have "(2::real) powi (e + 1) \<le> 2 powi ?u" using lt by (intro two_powi_mono) simp
    then have "2 ^ 53 * (2::real) powi e \<le> 2 ^ 52 * 2 powi ?u" by (simp add: two_powi_Suc)
    moreover have "?x < 2 ^ 53 * 2 powi e" using k' by simp
    ultimately show False by linarith
  qed
  show ?thesis
  proof (cases "?u \<le> e")
    case True
    define p where "p = (2::real) powi ?u"
    define j where "j = nat (e - ?u)"
    have p: "0 < p" by (simp add: p_def)
    have "e = ?u + int j" using True by (simp add: j_def)
    then have "(2::real) powi e = 2 powi (?u + int j)" by simp
    also have "\<dots> = p * 2 ^ j" by (simp add: power_int_add p_def)
    finally have pe: "(2::real) powi e = p * 2 ^ j" .
    have "?x / p = of_int k * 2 ^ j" using p by (simp add: pe)
    also have "\<dots> = of_int (k * 2 ^ j)" by simp
    finally have "rne (?x / p) = k * 2 ^ j" by (simp only: rne_of_int)
    then have "round_magnitude ?x = of_int (k * 2 ^ j) * p"
      by (simp add: round_magnitude_def p_def)
    also have "\<dots> = ?x" by (simp add: pe)
    finally show ?thesis .
  next
    case False
    with le have k53: "k = 2 ^ 53" by simp
    have xe: "?x = of_int (2 ^ 52) * 2 powi (e + 1)"
      by (simp add: k53 two_powi_Suc)
    have "ulp_exponent ?x = e + 1"
    proof (rule ulp_exponentI)
      show "- 1074 \<le> e + 1" "e + 1 < 2200" using assms by simp_all
      show "\<bar>?x\<bar> < 2 ^ 53 * 2 powi (e + 1)" by (simp add: k53 two_powi_Suc)
      show "2 ^ 52 * 2 powi (e + 1) \<le> \<bar>?x\<bar> \<or> e + 1 = - 1074"
        by (simp add: k53 two_powi_Suc)
    qed
    then have "round_magnitude ?x = of_int (rne (?x / 2 powi (e + 1))) * 2 powi (e + 1)"
      by (simp add: round_magnitude_def)
    also have "?x / 2 powi (e + 1) = of_int (2 ^ 52)" by (simp add: k53 two_powi_Suc)
    also have "of_int (rne (of_int (2 ^ 52))) * (2::real) powi (e + 1) = ?x"
      by (simp only: rne_of_int) (simp add: k53 two_powi_Suc)
    finally show ?thesis .
  qed
qed

lemma round_double_exact:
  assumes "\<bar>k\<bar> \<le> 2 ^ 53" and "- 1074 \<le> e" and "e < 2148"
  shows "round_double (of_int k * 2 powi e) = of_int k * 2 powi e"
proof (cases "0 \<le> k")
  case True
  with assms have "round_magnitude (of_int k * 2 powi e) = of_int k * 2 powi e"
    by (intro round_magnitude_exact) simp_all
  moreover have "0 \<le> of_int k * (2::real) powi e" using True by simp
  ultimately show ?thesis by (simp add: round_double_def not_less [symmetric])
next
  case False
  with assms have "round_magnitude (of_int (- k) * 2 powi e) = of_int (- k) * 2 powi e"
    by (intro round_magnitude_exact) simp_all
  moreover have "of_int k * (2::real) powi e < 0" using False by (simp add: mult_neg_pos)
  ultimately show ?thesis by (simp add: round_double_def)
qed

lemma round_double_int: "\<bar>k\<bar> \<le> 2 ^ 53 \<Longrightarrow> round_double (of_int k) = of_int k"
  using round_double_exact [of k 0] by simp

lemma round_double_numeral [simp]:
  "numeral n \<le> (2 ^ 53 :: int) \<Longrightarrow> round_double (numeral n) = numeral n"
  using round_double_int [of "numeral n"] by simp

lemma round_double_neg_numeral [simp]:
  "numeral n \<le> (2 ^ 53 :: int) \<Longrightarrow> round_double (- numeral n) = - numeral n"
  by (simp add: round_double_minus)

lemma round_double_1 [simp]: "round_double 1 = 1"
  using round_double_int [of 1] by simp

lemma round_double_dyadic:
  "numeral n \<le> (2 ^ 53 :: int) \<Longrightarrow> j \<le> 1074
     \<Longrightarrow> round_double (numeral n / 2 ^ j) = numeral n / 2 ^ j"
  using round_double_exact [of "numeral n" "- int j"]
  by (simp add: power_int_minus field_simps)

lemma round_double_ratio:
  "\<bar>k\<bar> \<le> 2 ^ 53 \<Longrightarrow> j \<le> 1074 \<Longrightarrow> round_double (of_int k / 2 ^ j) = of_int k / 2 ^ j"
  using round_double_exact [of k "- int j"]
  by (simp add: power_int_minus field_simps)

lemma round_double_half [simp]:
  "numeral n \<le> (2 ^ 53 :: int) \<Longrightarrow> round_double (numeral n / 2) = numeral n / 2"
  using round_double_dyadic [of n 1] by simp

lemma round_double_unit_half [simp]: "round_double (1 / 2) = 1 / 2"
  using round_double_exact [of 1 "- 1"] by simp


lemma round_double_bounds:
  assumes "lo \<le> x" and "x \<le> hi" and "round_double lo = lo" and "round_double hi = hi"
  shows "lo \<le> round_double x \<and> round_double x \<le> hi"
  using round_double_mono [OF assms(1)] round_double_mono [OF assms(2)] assms(3,4) by simp

lemma round_double_eval:
  assumes "0 \<le> x" and "- 1074 \<le> e" and "e < 2200"
    and "x < 2 ^ 53 * 2 powi e" and "2 ^ 52 * 2 powi e \<le> x \<or> e = - 1074"
  shows "round_double x = of_int (rne (x / 2 powi e)) * 2 powi e"
proof -
  have "ulp_exponent x = e"
    using assms by (intro ulp_exponentI) simp_all
  with assms(1) show ?thesis by (simp add: round_double_def round_magnitude_def)
qed

lemma round_double_max: "round_double max_double = max_double"
  using round_double_exact [of "2 ^ 53 - 1" 971] by (simp add: max_double_def)

lemma max_double_pos: "0 < max_double"
  by (simp add: max_double_def)

lemma double_result_finite:
  "\<bar>x\<bar> \<le> max_double \<Longrightarrow> double_result x = Num (round_double x)"
proof -
  assume a: "\<bar>x\<bar> \<le> max_double"
  then have "round_double x \<le> max_double" "- max_double \<le> round_double x"
    using round_double_mono [of x max_double] round_double_mono [of "- max_double" x]
    by (simp_all add: round_double_max round_double_minus)
  then show ?thesis by (simp add: double_result_def Let_def)
qed

subsection \<open>Development\<close>

lemma map2_same_source:
  "map2 f (map g xs) (map h xs) = map (\<lambda>x. f (g x) (h x)) xs"
  by (induction xs) simp_all

lemma np_sub_same_source:
  "np_sub (map (map g) a) (map (map h) a) = map (map (\<lambda>v. double_sub (g v) (h v))) a"
  unfolding np_sub_def
proof (induction a)
  case Nil
  then show ?case by simp
next
  case (Cons r a)
  then show ?case by (simp add: map2_same_source)
qed

lemma simulate_development_cells:
  "simulate_development r t =
     map (map (\<lambda>v. if np_positive (double_sub (double_mul (double_of 1) (double_of 40))
                                      (double_mul (double_of v) (double_of t)))
                    then 1 else 0)) r"
  by (simp add: simulate_development_def np_multiply_def np_array_def np_ones_like_def
      np_sub_same_source np_where_pos_def o_def)

lemma calculate_development_rate_cells:
  "calculate_development_rate rp c =
     map (map (\<lambda>v. finite_value
                      (double_div (double_of (development_rate_base_nm_s rp))
                         (double_add (double_of 1)
                            (double_exp
                               (double_mul (double_of (- development_contrast rp))
                                  (double_sub (double_of v) (double_of 0.5)))))))) c"
  by (simp add: calculate_development_rate_def np_array_def o_def Let_def)

lemma thickness_double: "double_mul (double_of 1) (double_of 40) = Num 40"
  by (simp add: double_of_def double_result_def max_double_def)

lemma resist_remains_iff:
  "np_positive (double_sub (double_mul (double_of 1) (double_of 40))
                  (double_mul (double_of v) (double_of t)))
   \<longleftrightarrow> (let depth = round_double (round_double v * round_double t)
        in depth < - max_double \<or> (depth \<le> max_double \<and> 0 < round_double (40 - depth)))"
proof -
  define depth where "depth = round_double (round_double v * round_double t)"
  let ?y = "round_double (40 - depth)"
  have pos: "np_positive (double_result (40 - depth)) \<longleftrightarrow> 0 < ?y"
    using max_double_pos by (auto simp: double_result_def Let_def)
  have "np_positive (double_sub (Num 40) (double_mul (double_of v) (double_of t)))
          \<longleftrightarrow> depth < - max_double \<or> (depth \<le> max_double \<and> 0 < ?y)"
    using max_double_pos pos
    by (auto simp: double_of_def double_result_def Let_def double_sub_def depth_def [symmetric])
  then show ?thesis by (simp add: thickness_double Let_def depth_def)
qed

lemma cell_removed_mono:
  assumes "0 \<le> t1" "t1 \<le> t2"
    and "\<not> np_positive (double_sub (double_mul (double_of 1) (double_of 40))
                          (double_mul (double_of v) (double_of t1)))"
  shows "\<not> np_positive (double_sub (double_mul (double_of 1) (double_of 40))
                          (double_mul (double_of v) (double_of t2)))"
proof -
  let ?a = "round_double v"
  let ?s1 = "round_double t1"
  let ?s2 = "round_double t2"
  let ?x1 = "round_double (?a * ?s1)"
  let ?x2 = "round_double (?a * ?s2)"
  have s1: "0 \<le> ?s1" using assms(1) by (rule round_double_nonneg)
  have s12: "?s1 \<le> ?s2" using assms(2) by (rule round_double_mono)
  from assms(3) have r1: "- max_double \<le> ?x1" "max_double < ?x1 \<or> round_double (40 - ?x1) \<le> 0"
    by (auto simp: resist_remains_iff Let_def)
  have apos: "0 < ?a"
  proof (rule ccontr)
    assume "\<not> 0 < ?a"
    then have "?a * ?s1 \<le> 0" using s1 by (simp add: mult_nonpos_nonneg)
    then have x1: "?x1 \<le> 0" by (rule round_double_nonpos)
    then have "round_double 40 \<le> round_double (40 - ?x1)"
      by (intro round_double_mono) simp
    then have "0 < round_double (40 - ?x1)" by simp
    with r1(2) x1 max_double_pos show False by simp
  qed
  then have "?a * ?s1 \<le> ?a * ?s2" using s12 by simp
  then have x12: "?x1 \<le> ?x2" by (rule round_double_mono)
  then have "round_double (40 - ?x2) \<le> round_double (40 - ?x1)"
    by (intro round_double_mono) simp
  with r1 x12 show ?thesis
    by (auto simp: resist_remains_iff Let_def)
qed

lemma count_filter_mono:
  assumes "\<And>x. P x \<Longrightarrow> Q x"
  shows "length (filter P xs) \<le> length (filter Q xs)"
  using assms by (induction xs) auto

lemma count_zero_cells_development:
  "count_zero_cells (simulate_development r t) =
     sum_list (map (\<lambda>row. length (filter
        (\<lambda>v. \<not> np_positive (double_sub (double_mul (double_of 1) (double_of 40))
                               (double_mul (double_of v) (double_of t)))) row)) r)"
  by (simp add: count_zero_cells_def simulate_development_cells o_def filter_map)

lemma grid_size_development: "grid_size (simulate_development r t) = grid_size r"
  by (simp add: grid_size_def simulate_development_cells o_def)

lemma count_zero_cells_le_size: "count_zero_cells p \<le> grid_size p"
  unfolding count_zero_cells_def grid_size_def
  by (induction p) (auto intro: add_mono)

text \<open>
  C9, as the code has it: for every rate map and development times 0 \<le> t1 \<le> t2, every
  cell removed at t1 is removed at t2, so the number of zero cells at t2 is at least the
  number at t1, and it never exceeds the number of cells (a fully removed pattern stays
  fully removed). The count need not grow: a cell is removed only once rate * time
  reaches 40.
\<close>

theorem development_time_monotone:
  assumes "0 \<le> t1" and "t1 \<le> t2"
  shows "count_zero_cells (simulate_development r t1)
           \<le> count_zero_cells (simulate_development r t2)
         \<and> count_zero_cells (simulate_development r t2) \<le> grid_size r"
proof
  have "length (filter (\<lambda>v. \<not> np_positive (double_sub (double_mul (double_of 1) (double_of 40))
                               (double_mul (double_of v) (double_of t1)))) row)
          \<le> length (filter (\<lambda>v. \<not> np_positive (double_sub (double_mul (double_of 1) (double_of 40))
                               (double_mul (double_of v) (double_of t2)))) row)"
    for row :: "real list"
    by (rule count_filter_mono) (rule cell_removed_mono [OF assms])
  then show "count_zero_cells (simulate_development r t1)
           \<le> count_zero_cells (simulate_development r t2)"
    unfolding count_zero_cells_development by (intro sum_list_mono) simp
  show "count_zero_cells (simulate_development r t2) \<le> grid_size r"
    using count_zero_cells_le_size [of "simulate_development r t2"]
    by (simp add: grid_size_development)
qed

theorem development_time_monotone_witness:
  "(0::real) \<le> 30 \<and> (30::real) \<le> 50
   \<and> count_zero_cells (simulate_development [[0.5, 2], [1.5, 1]] 30) = 2
   \<and> count_zero_cells (simulate_development [[0.5, 2], [1.5, 1]] 50) = 3
   \<and> count_zero_cells (simulate_development [[0.5, 2], [1.5, 1]] 30)
       \<le> count_zero_cells (simulate_development [[0.5, 2], [1.5, 1]] 50)"
  using development_time_monotone [of 30 50 "[[0.5, 2], [1.5, 1]]"]
  by (simp add: count_zero_cells_development resist_remains_iff round_double_0 max_double_def)

text \<open>
  The strict form of C9 fails: one cell of rate 0.5 nm/s is not removed after 30 s and not
  after 31 s, so the count of removed cells stays 0 while the pattern is not saturated.
\<close>

theorem development_time_strict_counterexample:
  "(30::real) < 31
   \<and> \<not> count_zero_cells (simulate_development [[0.5]] 30)
         < count_zero_cells (simulate_development [[0.5]] 31)
   \<and> count_zero_cells (simulate_development [[0.5]] 30) \<noteq> grid_size [[0.5]]"
  by (simp add: count_zero_cells_development grid_size_def resist_remains_iff round_double_0
      max_double_def)

lemma double_result_nonneg:
  assumes "0 \<le> x"
  shows "double_result x = PInf \<or> (double_result x = Num (round_double x) \<and> 0 \<le> round_double x)"
  using round_double_nonneg [OF assms] max_double_pos
  by (auto simp: double_result_def Let_def)

lemma double_exp_cases:
  "b = NaN \<or> double_exp b = PInf \<or> (\<exists>v. double_exp b = Num v \<and> 0 \<le> v)"
proof (cases b)
  case (Num x)
  then show ?thesis using double_result_nonneg [of "exp x"] by auto
qed simp_all

lemma one_plus_cases:
  assumes "0 \<le> v"
  shows "double_add (double_of 1) (Num v) = PInf
         \<or> (\<exists>d. double_add (double_of 1) (Num v) = Num d \<and> 1 \<le> d)"
proof -
  have "round_double 1 \<le> round_double (1 + v)"
    using assms by (intro round_double_mono) simp
  then show ?thesis
    using double_result_nonneg [of "1 + v"] assms by (auto simp: double_of_def)
qed

lemma denominator_cases:
  "b = NaN \<or> double_add (double_of 1) (double_exp b) = PInf
   \<or> (\<exists>d. double_add (double_of 1) (double_exp b) = Num d \<and> 1 \<le> d)"
proof -
  consider "b = NaN" | "double_exp b = PInf" | v where "double_exp b = Num v" "0 \<le> v"
    using double_exp_cases [of b] by auto
  then show ?thesis
  proof cases
    case 1
    then show ?thesis by simp
  next
    case 2
    then show ?thesis by (simp add: double_of_def)
  next
    case 3
    then show ?thesis using one_plus_cases [of v] by simp
  qed
qed

lemma quotient_by_large:
  assumes "\<bar>round_double a\<bar> \<le> max_double" and "1 \<le> d"
  shows "double_div (double_of a) (Num d) = Num (round_double (round_double a / d))"
proof -
  have "\<bar>round_double a\<bar> * 1 \<le> \<bar>round_double a\<bar> * d"
    using assms(2) by (intro mult_left_mono) simp_all
  then have "\<bar>round_double a / d\<bar> \<le> \<bar>round_double a\<bar>"
    using assms(2) by (simp add: field_simps)
  with assms have "double_result (round_double a / d) = Num (round_double (round_double a / d))"
    by (intro double_result_finite) simp
  with assms(2) show ?thesis by (simp add: double_of_def)
qed

lemma round_double_in_range:
  "\<bar>a\<bar> \<le> max_double \<Longrightarrow> \<bar>round_double a\<bar> \<le> max_double"
  using round_double_mono [of a max_double] round_double_mono [of "- max_double" a]
  by (simp add: round_double_max round_double_minus abs_le_iff)

lemma shifted_acid_finite:
  assumes "\<bar>c\<bar> \<le> 2 ^ 1023"
  shows "\<exists>s. double_sub (double_of c) (double_of 0.5) = Num s"
proof -
  define P :: real where "P = 2 ^ 1023"
  have p: "round_double P = P"
    using round_double_exact [of 1 1023] by (simp add: P_def)
  have c: "c \<le> P" "- P \<le> c" using assms by (simp_all add: P_def abs_le_iff)
  have "round_double c \<le> P" "- P \<le> round_double c"
    using round_double_mono [OF c(1)] round_double_mono [OF c(2)]
    by (simp_all add: p round_double_minus)
  moreover have "P + 1 / 2 \<le> max_double"
    by (simp add: P_def max_double_def)
  ultimately have "\<bar>round_double c + - (1 / 2)\<bar> \<le> max_double"
    by (simp add: abs_le_iff)
  then show ?thesis
    by (simp add: double_sub_def double_of_def double_result_finite)
qed

lemma double_mul_not_nan: "double_mul (Num k) (Num s) \<noteq> NaN"
  by (simp add: double_result_def Let_def)

text \<open>
  The rate is a finite double: for a base rate within the double range and an acid value
  up to \<open>2 ^ 1023\<close> in magnitude the quotient that \<open>calculate_development_rate\<close>
  computes is neither an infinity nor NaN.
\<close>

lemma development_rate_finite:
  assumes "\<bar>development_rate_base_nm_s rp\<bar> \<le> max_double" and "\<bar>c\<bar> \<le> 2 ^ 1023"
  shows "is_finite
           (double_div (double_of (development_rate_base_nm_s rp))
              (double_add (double_of 1)
                 (double_exp
                    (double_mul (double_of (- development_contrast rp))
                       (double_sub (double_of c) (double_of 0.5))))))"
proof -
  obtain s where s: "double_sub (double_of c) (double_of 0.5) = Num s"
    using shifted_acid_finite [OF assms(2)] by auto
  define b where "b = double_mul (double_of (- development_contrast rp)) (Num s)"
  have "b \<noteq> NaN" unfolding b_def double_of_def by (rule double_mul_not_nan)
  then consider "double_add (double_of 1) (double_exp b) = PInf"
    | d where "double_add (double_of 1) (double_exp b) = Num d" "1 \<le> d"
    using denominator_cases [of b] by auto
  then have "is_finite (double_div (double_of (development_rate_base_nm_s rp))
                          (double_add (double_of 1) (double_exp b)))"
  proof cases
    case 1
    then show ?thesis by (simp add: double_of_def)
  next
    case 2
    then show ?thesis
      using quotient_by_large [OF round_double_in_range [OF assms(1)] 2(2)] by simp
  qed
  then show ?thesis using s by (simp add: b_def)
qed





subsection \<open>The electron cascade\<close>

lemma fold_raised:
  "fold (\<lambda>x acc. case acc of Inl e \<Rightarrow> Inl e | Inr s \<Rightarrow> body x s) xs (Inl e) = Inl e"
  by (induction xs) simp_all

lemma for_each_pure:
  assumes "\<And>x s. x \<in> set xs \<Longrightarrow> body x s = Inr (f x s)"
  shows "for_each body xs st = Inr (fold f xs st)"
  using assms unfolding for_each_def
  by (induction xs arbitrary: st) simp_all

lemma fold_ignoring_index: "fold (\<lambda>_. f) xs = f ^^ length xs"
  by (induction xs) (simp_all add: funpow_swap1)

lemma is_finite_iff: "is_finite v \<longleftrightarrow> (\<exists>r. v = Num r)"
  by (cases v) simp_all

lemma gauss_displacement:
  "gauss g pos 0 (double_div (double_of (electron_scattering_range_nm rp))
                    (double_of nm_per_pixel))
     = (displacement rp (g pos), Suc pos)"
  by (simp add: gauss_def displacement_def)

lemma scatter_electron_deposit:
  assumes "is_finite (displacement rp (g pos))" and "is_finite (displacement rp (g (Suc pos)))"
  shows "scatter_electron rp g h w x y (em, pos)
           = Inr (place_electron double_offset rp g h w (x, y) (em, pos))"
proof -
  obtain a b where "displacement rp (g pos) = Num a" "displacement rp (g (Suc pos)) = Num b"
    using assms by (auto simp: is_finite_iff)
  then show ?thesis
    by (simp add: scatter_electron_def gauss_displacement place_electron_def
        electron_target_def double_offset_def Let_def)
qed

lemma electron_target_shift:
  "electron_target f rp g pos (Suc k, s) = electron_target f rp g (pos + 2) (k, s)"
  by (simp add: electron_target_def Let_def)

lemma electron_targets_shift:
  "map (electron_target f rp g pos) (enumerate (Suc n) srcs)
     = map (electron_target f rp g (pos + 2)) (enumerate n srcs)"
  by (induction srcs arbitrary: n) (simp_all add: electron_target_shift)

lemma place_electron_pair:
  "place_electron f rp g h w s (em, pos) =
     (deposit h w (fst (electron_target f rp g pos (0, s)))
                  (snd (electron_target f rp g pos (0, s))) em, pos + 2)"
  by (simp add: place_electron_def Let_def)

lemma fold_place_electron:
  "fold (place_electron f rp g h w) srcs (em, pos) =
     (fold (\<lambda>t. deposit h w (fst t) (snd t))
        (map (electron_target f rp g pos) (enumerate 0 srcs)) em,
      pos + 2 * length srcs)"
proof (induction srcs arbitrary: em pos)
  case Nil
  then show ?case by simp
next
  case (Cons s srcs)
  show ?case
    by (simp add: place_electron_pair Cons.IH electron_targets_shift)
qed

lemma cascade_cell_sources:
  assumes "\<forall>k. is_finite (displacement rp (g k))"
    and "is_finite (double_mul (double_of (pm ! y ! x))
                      (double_of (secondary_electron_yield rp)))"
  shows "cascade_cell rp g pm h w y x st
           = Inr (fold (place_electron double_offset rp g h w)
                    (cell_electrons double_count rp pm y x) st)"
proof (cases "np_positive (double_of (pm ! y ! x))")
  case False
  then show ?thesis
    by (simp add: cascade_cell_def cell_electrons_def double_count_def)
next
  case True
  obtain p where p: "double_mul (double_of (pm ! y ! x))
                       (double_of (secondary_electron_yield rp)) = Num p"
    using assms(2) by (auto simp: is_finite_iff)
  have "for_each (\<lambda>_. scatter_electron rp g h w x y) [0..<n] st
          = Inr (fold (\<lambda>_. place_electron double_offset rp g h w (x, y)) [0..<n] st)" for n
  proof (rule for_each_pure)
    fix i :: nat and s :: "grid \<times> nat"
    show "scatter_electron rp g h w x y s = Inr (place_electron double_offset rp g h w (x, y) s)"
      using scatter_electron_deposit [of rp g "snd s" h w x y "fst s"] assms(1) by simp
  qed
  then show ?thesis
    using True
    by (simp add: cascade_cell_def cell_electrons_def double_count_def p
        fold_ignoring_index fold_replicate)
qed

lemma fold_over_concat: "fold f (concat xss) = fold (fold f) xss"
  by (induction xss) simp_all

lemma cell_of_rectangular:
  assumes "rectangular pm" and "y < shape_height pm" and "x < shape_width pm"
  shows "pm ! y \<in> set pm \<and> pm ! y ! x \<in> set (pm ! y)"
proof -
  from assms(2) have row: "pm ! y \<in> set pm" by (simp add: shape_height_def)
  with assms(1) have "length (pm ! y) = shape_width pm"
    by (simp add: rectangular_def list_all_iff)
  with assms(3) row show ?thesis by simp
qed

lemma cascade_loops_sources:
  assumes "rectangular pm"
    and "list_all (list_all (\<lambda>v. is_finite (double_mul (double_of v)
                                   (double_of (secondary_electron_yield rp))))) pm"
    and "\<forall>k. is_finite (displacement rp (g k))"
  shows "for_each (\<lambda>y. for_each (cascade_cell rp g pm h w y) [0..<shape_width pm])
           [0..<shape_height pm] st =
         Inr (fold (place_electron double_offset rp g h w)
                (electron_sources double_count rp pm) st)"
proof -
  have cell: "cascade_cell rp g pm h w y x s
                = Inr (fold (place_electron double_offset rp g h w)
                         (cell_electrons double_count rp pm y x) s)"
    if "y < shape_height pm" "x < shape_width pm" for y x s
  proof -
    from cell_of_rectangular [OF assms(1) that] assms(2)
    have "is_finite (double_mul (double_of (pm ! y ! x))
                       (double_of (secondary_electron_yield rp)))"
      by (auto simp: list_all_iff)
    with assms(3) show ?thesis by (rule cascade_cell_sources)
  qed
  have row: "for_each (cascade_cell rp g pm h w y) [0..<shape_width pm] s
               = Inr (fold (\<lambda>x. fold (place_electron double_offset rp g h w)
                                   (cell_electrons double_count rp pm y x))
                        [0..<shape_width pm] s)"
    if "y < shape_height pm" for y s
    by (rule for_each_pure) (simp add: cell that)
  have "for_each (\<lambda>y. for_each (cascade_cell rp g pm h w y) [0..<shape_width pm])
          [0..<shape_height pm] st
        = Inr (fold (\<lambda>y. fold (\<lambda>x. fold (place_electron double_offset rp g h w)
                                        (cell_electrons double_count rp pm y x))
                             [0..<shape_width pm])
                 [0..<shape_height pm] st)"
    by (rule for_each_pure) (simp add: row)
  then show ?thesis
    by (simp add: electron_sources_def fold_over_concat fold_map o_def)
qed

lemma deposit_shape:
  assumes "length em = h" and "\<forall>r\<in>set em. length r = w"
  shows "length (deposit h w nx ny em) = h \<and> (\<forall>r\<in>set (deposit h w nx ny em). length r = w)"
proof (cases "0 \<le> nx \<and> nx < int w \<and> 0 \<le> ny \<and> ny < int h")
  case False
  then have "deposit h w nx ny em = em" by (auto simp: deposit_def)
  with assms show ?thesis by simp
next
  case True
  let ?row = "(em ! nat ny)[nat nx := em ! nat ny ! nat nx + 1]"
  from True assms(1) have "nat ny < length em" by auto
  with assms(2) have "length ?row = w" by simp
  moreover have "set (em[nat ny := ?row]) \<subseteq> insert ?row (set em)"
    by (rule set_update_subset_insert)
  ultimately have "\<forall>r\<in>set (em[nat ny := ?row]). length r = w"
    using assms(2) by auto
  with True assms(1) show ?thesis by (simp add: deposit_def)
qed

lemma deposit_nth:
  assumes "length em = h" and "\<forall>r\<in>set em. length r = w" and "y < h" and "x < w"
  shows "deposit h w nx ny em ! y ! x =
           em ! y ! x + (if (nx, ny) = (int x, int y) then 1 else 0)"
proof -
  have row: "length (em ! y) = w" using assms by simp
  show ?thesis
  proof (cases "0 \<le> nx \<and> nx < int w \<and> 0 \<le> ny \<and> ny < int h")
    case False
    with assms show ?thesis by (auto simp: deposit_def)
  next
    case True
    then have ny: "nat ny < length em" and nx: "nat nx < w" using assms by auto
    have rowny: "length (em ! nat ny) = w" using assms ny by simp
    show ?thesis
    proof (cases "nat ny = y")
      case True
      with \<open>0 \<le> nx \<and> nx < int w \<and> 0 \<le> ny \<and> ny < int h\<close> assms row show ?thesis
        by (auto simp: deposit_def nth_list_update)
    next
      case False
      with \<open>0 \<le> nx \<and> nx < int w \<and> 0 \<le> ny \<and> ny < int h\<close> assms show ?thesis
        by (auto simp: deposit_def nth_list_update)
    qed
  qed
qed

lemma fold_deposit:
  assumes "length em = h" and "\<forall>r\<in>set em. length r = w"
  shows "length (fold (\<lambda>t. deposit h w (fst t) (snd t)) ts em) = h
         \<and> (\<forall>r\<in>set (fold (\<lambda>t. deposit h w (fst t) (snd t)) ts em). length r = w)
         \<and> (\<forall>y<h. \<forall>x<w. fold (\<lambda>t. deposit h w (fst t) (snd t)) ts em ! y ! x
                = em ! y ! x + real (count_list ts (int x, int y)))"
  using assms
proof (induction ts arbitrary: em)
  case Nil
  then show ?case by simp
next
  case (Cons t ts)
  obtain nx ny where t: "t = (nx, ny)" by (cases t)
  let ?em = "deposit h w nx ny em"
  from deposit_shape [OF Cons.prems] have shape: "length ?em = h" "\<forall>r\<in>set ?em. length r = w"
    by auto
  from Cons.IH [OF shape] deposit_nth [OF Cons.prems]
  show ?case by (auto simp: t)
qed

lemma fold_deposit_zeros:
  "fold (\<lambda>t. deposit h w (fst t) (snd t)) ts (replicate h (replicate w 0)) = deposited h w ts"
proof -
  let ?r = "fold (\<lambda>t. deposit h w (fst t) (snd t)) ts (replicate h (replicate w 0))"
  have fd: "length ?r = h" "\<forall>r\<in>set ?r. length r = w"
    "\<forall>y<h. \<forall>x<w. ?r ! y ! x = real (count_list ts (int x, int y))"
    using fold_deposit [of "replicate h (replicate w 0)" h w ts] by auto
  show ?thesis
  proof (rule nth_equalityI)
    show "length ?r = length (deposited h w ts)" by (simp add: fd deposited_def)
  next
    fix y assume "y < length ?r"
    then have y: "y < h" by (simp add: fd)
    then have len: "length (?r ! y) = w" using fd by simp
    show "?r ! y = deposited h w ts ! y"
    proof (rule nth_equalityI)
      show "length (?r ! y) = length (deposited h w ts ! y)"
        using y len by (simp add: deposited_def)
    next
      fix x assume "x < length (?r ! y)"
      then have "x < w" by (simp add: len)
      with y fd(3) show "?r ! y ! x = deposited h w ts ! y ! x"
        by (simp add: deposited_def)
    qed
  qed
qed

lemma zeros_like_rectangular:
  assumes "rectangular pm"
  shows "np_zeros_like pm = replicate (shape_height pm) (replicate (shape_width pm) 0)"
proof -
  have "map (\<lambda>_. 0 :: real) r = replicate (shape_width pm) 0" if "r \<in> set pm" for r
    using assms that by (simp add: rectangular_def list_all_iff map_replicate_const)
  then have "map (map (\<lambda>_. 0 :: real)) pm = map (\<lambda>_. replicate (shape_width pm) 0) pm"
    by simp
  then show ?thesis
    by (simp add: np_zeros_like_def shape_height_def map_replicate_const)
qed

lemma cascade_loops_refine:
  assumes "rectangular pm"
    and "list_all (list_all (\<lambda>v. is_finite (double_mul (double_of v)
                                   (double_of (secondary_electron_yield rp))))) pm"
    and "\<forall>k. is_finite (displacement rp (g k))"
  shows "simulate_electron_cascade rp g pos pm
           = Inr (cascade_spec double_count double_offset rp g pos pm)"
  by (simp add: simulate_electron_cascade_def cascade_spec_def Let_def
      zeros_like_rectangular [OF assms(1)] cascade_loops_sources [OF assms]
      fold_place_electron fold_deposit_zeros)

lemma cascade_spec_cong:
  assumes "rectangular pm"
    and "\<And>v. v \<in> \<Union> (set ` set pm)
           \<Longrightarrow> count v (secondary_electron_yield rp) = count' v (secondary_electron_yield rp)"
    and "\<And>k. offset rp (g k) = offset' rp (g k)"
  shows "cascade_spec count offset rp g pos pm = cascade_spec count' offset' rp g pos pm"
proof -
  have "cell_electrons count rp pm y x = cell_electrons count' rp pm y x"
    if "y < shape_height pm" "x < shape_width pm" for y x
    using cell_of_rectangular [OF assms(1) that] assms(2) [of "pm ! y ! x"]
    by (auto simp: cell_electrons_def)
  then have "electron_sources count rp pm = electron_sources count' rp pm"
    unfolding electron_sources_def
    by (intro arg_cong [where f = concat] map_cong refl) simp_all
  moreover have "electron_target offset rp g pos = electron_target offset' rp g pos"
    by (intro ext) (simp add: electron_target_def Let_def assms(3))
  ultimately show ?thesis by (simp add: cascade_spec_def Let_def)
qed

subsection \<open>Concrete double values of the default resist\<close>

lemma double_result_bracket:
  assumes "lo \<le> x" and "x \<le> hi" and "round_double lo = lo" and "round_double hi = hi"
    and "- max_double \<le> lo" and "hi \<le> max_double"
  shows "\<exists>d. double_result x = Num d \<and> lo \<le> d \<and> d \<le> hi"
proof -
  from round_double_bounds [OF assms(1-4)] assms(5,6) show ?thesis
    by (auto simp: double_result_def Let_def)
qed

lemma py_int_bracket: "of_int n \<le> d \<Longrightarrow> d < of_int n + 1 \<Longrightarrow> 0 \<le> n \<Longrightarrow> py_int d = n"
  by (simp add: py_int_def floor_unique)

lemma py_int_bracket_neg:
  "of_int n - 1 < d \<Longrightarrow> d \<le> of_int n \<Longrightarrow> n < 0 \<Longrightarrow> py_int d = n"
  by (simp add: py_int_def ceiling_unique)

lemma yield_double: "round_double (16 / 5) = 7205759403792794 / 2 ^ 51"
  by (subst round_double_eval [of _ "- 51"]) (simp_all add: rne_def power_int_minus)

lemma zero_cell_count:
  "is_finite (double_mul (double_of 0) (double_of y)) \<and> double_count 0 y = 0"
  using max_double_pos
  by (simp add: double_of_def double_count_def round_double_0 double_result_def)

lemma unit_cell_count:
  "is_finite (double_mul (double_of 1) (double_of (16 / 5))) \<and> double_count 1 (16 / 5) = 3"
proof -
  have "\<exists>d. double_result (7205759403792794 / 2 ^ 51) = Num d \<and> 3 \<le> d \<and> d \<le> 7 / 2"
    by (rule double_result_bracket) (simp_all add: max_double_def)
  then obtain d where d: "double_result (7205759403792794 / 2 ^ 51) = Num d" "3 \<le> d" "d \<le> 7 / 2"
    by auto
  have "py_int d = 3" using d py_int_bracket [of 3 d] by simp
  with d(1) show ?thesis
    by (simp add: double_of_def double_count_def yield_double)
qed

lemma half_cell_count:
  "is_finite (double_mul (double_of (1 / 2)) (double_of (16 / 5)))
   \<and> double_count (1 / 2) (16 / 5) = 1"
proof -
  have "\<exists>d. double_result (1 / 2 * (7205759403792794 / 2 ^ 51)) = Num d \<and> 3 / 2 \<le> d \<and> d \<le> 7 / 4"
    by (rule double_result_bracket) (simp_all add: max_double_def round_double_ratio [of 7 2, simplified])
  then obtain d where d: "double_result (1 / 2 * (7205759403792794 / 2 ^ 51)) = Num d"
      "3 / 2 \<le> d" "d \<le> 7 / 4"
    by auto
  have "py_int d = 1" using d py_int_bracket [of 1 d] by simp
  with d(1) show ?thesis
    by (simp add: double_of_def double_count_def yield_double)
qed

lemma default_sigma:
  "\<exists>s. double_div (double_of (electron_scattering_range_nm default_resist))
          (double_of nm_per_pixel) = Num s \<and> 19 / 2 \<le> s \<and> s \<le> 39 / 4"
proof -
  have r: "19 / 4 \<le> round_double (24 / 5) \<and> round_double (24 / 5) \<le> 39 / 8"
    by (rule round_double_bounds)
       (simp_all add: round_double_ratio [of 19 2, simplified]
          round_double_ratio [of 39 3, simplified])
  have "\<exists>s. double_result (round_double (24 / 5) / (1 / 2)) = Num s \<and> 19 / 2 \<le> s \<and> s \<le> 39 / 4"
    using r
    by (intro double_result_bracket)
       (simp_all add: max_double_def round_double_ratio [of 39 2, simplified])
  then show ?thesis
    by (simp add: double_of_def default_resist_def nm_per_pixel_def)
qed

lemma default_displacement_bracket:
  assumes "round_double z = z"
    and "\<And>s. 19 / 2 \<le> s \<Longrightarrow> s \<le> 39 / 4 \<Longrightarrow> lo \<le> z * s \<and> z * s \<le> hi"
    and "round_double lo = lo" and "round_double hi = hi"
    and "- max_double \<le> lo" and "hi \<le> max_double"
  shows "\<exists>q. displacement default_resist z = Num q \<and> lo \<le> q \<and> q \<le> hi"
proof -
  obtain s where s: "double_div (double_of (electron_scattering_range_nm default_resist))
                       (double_of nm_per_pixel) = Num s" "19 / 2 \<le> s" "s \<le> 39 / 4"
    using default_sigma by auto
  from assms(2) [OF s(2,3)] have zs: "lo \<le> z * s" "z * s \<le> hi" by simp_all
  obtain p where p: "double_result (z * s) = Num p" "lo \<le> p" "p \<le> hi"
    using double_result_bracket [OF zs assms(3-6)] by auto
  have "lo \<le> 0 + p" "0 + p \<le> hi" using p by simp_all
  from double_result_bracket [OF this assms(3-6)]
  obtain q where q: "double_result (0 + p) = Num q" "lo \<le> q" "q \<le> hi" by auto
  have "displacement default_resist z = Num q"
    unfolding displacement_def s(1)
    using q(1) by (simp add: p(1) double_of_def assms(1) round_double_0)
  with q(2,3) show ?thesis by simp
qed

lemma zero_displacement:
  "is_finite (displacement default_resist 0) \<and> double_offset default_resist 0 = 0"
proof -
  obtain q where q: "displacement default_resist 0 = Num q" "0 \<le> q" "q \<le> 0"
    using default_displacement_bracket [of 0 0 0] max_double_pos
    by (auto simp: round_double_0)
  then have "q = 0" by simp
  with q(1) show ?thesis by (simp add: double_offset_def py_int_def)
qed

lemma eighth_displacement:
  "is_finite (displacement default_resist (1 / 8)) \<and> double_offset default_resist (1 / 8) = 1"
proof -
  have "\<exists>q. displacement default_resist (1 / 8) = Num q \<and> 1 \<le> q \<and> q \<le> 3 / 2"
    by (rule default_displacement_bracket)
       (simp_all add: max_double_def round_double_ratio [of 1 3, simplified])
  then obtain q where q: "displacement default_resist (1 / 8) = Num q" "1 \<le> q" "q \<le> 3 / 2"
    by auto
  have "py_int q = 1" using q py_int_bracket [of 1 q] by simp
  with q(1) show ?thesis by (simp add: double_offset_def)
qed

lemma minus_eighth_displacement:
  "is_finite (displacement default_resist (- 1 / 8))
   \<and> double_offset default_resist (- 1 / 8) = - 1"
proof -
  have "\<exists>q. displacement default_resist (- (1 / 8)) = Num q \<and> - (3 / 2) \<le> q \<and> q \<le> - 1"
    by (rule default_displacement_bracket)
       (simp_all add: max_double_def round_double_minus round_double_ratio [of 1 3, simplified])
  then obtain q where q: "displacement default_resist (- (1 / 8)) = Num q" "- (3 / 2) \<le> q"
      "q \<le> - 1"
    by auto
  have "py_int q = - 1" using q py_int_bracket_neg [of "- 1" q] by simp
  with q(1) show ?thesis by (simp add: double_offset_def)
qed

lemma sixteenth_displacement:
  "is_finite (displacement default_resist (1 / 16))
   \<and> double_offset default_resist (1 / 16) = 0"
proof -
  have "\<exists>q. displacement default_resist (1 / 16) = Num q \<and> 1 / 2 \<le> q \<and> q \<le> 3 / 4"
    by (rule default_displacement_bracket)
       (simp_all add: max_double_def round_double_ratio [of 1 4, simplified]
          round_double_ratio [of 3 2, simplified])
  then obtain q where q: "displacement default_resist (1 / 16) = Num q" "1 / 2 \<le> q" "q \<le> 3 / 4"
    by auto
  have "py_int q = 0" using q py_int_bracket [of 0 q] by simp
  with q(1) show ?thesis by (simp add: double_offset_def)
qed

lemma near_unit_cell_count:
  "is_finite (double_mul (double_of (9374999999999999 / 10000000000000000))
                (double_of (16 / 5)))
   \<and> double_count (9374999999999999 / 10000000000000000) (16 / 5) = 3"
proof -
  have v: "round_double (9374999999999999 / 10000000000000000) = 8444249301319679 / 2 ^ 53"
    by (subst round_double_eval [of _ "- 53"]) (simp_all add: rne_def power_int_minus)
  have p: "round_double (8444249301319679 / 2 ^ 53 * (7205759403792794 / 2 ^ 51)) = 3"
    by (subst round_double_eval [of _ "- 51"]) (simp_all add: rne_def power_int_minus)
  have "double_mul (double_of (9374999999999999 / 10000000000000000)) (double_of (16 / 5))
          = Num 3"
    unfolding double_of_def v yield_double double_mul.simps double_result_def p
    by (simp add: max_double_def)
  then show ?thesis
    by (simp add: double_count_def double_of_def v py_int_def)
qed

text \<open>
  C7, as the code has it: on every photon map whose double products value * yield are
  finite, and for draws whose double displacements are finite, simulate_electron_cascade
  raises nothing and is the specified cascade with two changes. The number of electrons
  of a positive cell is the double product value * yield truncated by Python's int, which
  can exceed floor(value * yield) of the exact product by one. A displacement is the
  double 0 + z * sigma for the deviate z and the scattering range in cells sigma, and it
  becomes a cell offset by truncation toward zero, not by rounding to the nearest
  integer. Each electron deposits one unit at its target inside the grid or is dropped
  outside of it.
\<close>

theorem cascade_truncates_double_values:
  assumes "rectangular pm"
    and "list_all (list_all (\<lambda>v. is_finite (double_mul (double_of v)
                                   (double_of (secondary_electron_yield rp))))) pm"
    and "\<forall>k. is_finite (displacement rp (g k))"
  shows "simulate_electron_cascade rp g pos pm
           = Inr (cascade_spec double_count double_offset rp g pos pm)"
  using assms by (rule cascade_loops_refine)

theorem cascade_truncates_double_values_witness:
  "rectangular [[0, 1, 0], [0.5, 0, 0]]
   \<and> list_all (list_all (\<lambda>v. is_finite (double_mul (double_of v)
                               (double_of (secondary_electron_yield default_resist)))))
       [[0, 1, 0], [0.5, 0, 0]]
   \<and> simulate_electron_cascade default_resist
        (\<lambda>n. if n = 0 then 1 / 8 else if n = 3 then - 1 / 8 else if n = 4 then 1 / 16 else 0)
        0 [[0, 1, 0], [0.5, 0, 0]]
       = Inr ([[0, 1, 1], [1, 0, 0]], 8)"
proof -
  let ?g = "\<lambda>n::nat. if n = 0 then 1 / 8 else if n = 3 then - 1 / 8 else if n = 4 then 1 / 16
                     else (0::real)"
  let ?pm = "[[0, 1, 0], [0.5, 0, 0]] :: grid"
  let ?count = "\<lambda>v y :: real. if v = 1 then 3 else if v = 1 / 2 then 1 else (0::nat)"
  let ?offset = "\<lambda>(rp :: resist_parameters) z :: real.
                   if z = 1 / 8 then 1 else if z = - 1 / 8 then - 1 else (0::int)"
  have r: "rectangular ?pm" by code_simp
  have fin: "list_all (list_all (\<lambda>v. is_finite (double_mul (double_of v)
                                   (double_of (secondary_electron_yield default_resist))))) ?pm"
    using zero_cell_count [of "16 / 5"] unit_cell_count half_cell_count
    by (simp add: default_resist_def)
  have disp: "\<forall>k. is_finite (displacement default_resist (?g k))"
    using zero_displacement eighth_displacement minus_eighth_displacement
      sixteenth_displacement by simp
  have "cascade_spec double_count double_offset default_resist ?g 0 ?pm
          = cascade_spec ?count ?offset default_resist ?g 0 ?pm"
  proof (rule cascade_spec_cong [OF r])
    fix v assume "v \<in> \<Union> (set ` set ?pm)"
    then consider "v = 0" | "v = 1" | "v = 1 / 2" by auto
    then show "double_count v (secondary_electron_yield default_resist)
                 = ?count v (secondary_electron_yield default_resist)"
    proof cases
      case 1
      show ?thesis unfolding 1 using zero_cell_count [of "16 / 5"]
        by (simp add: default_resist_def)
    next
      case 2
      show ?thesis unfolding 2 using unit_cell_count by (simp add: default_resist_def)
    next
      case 3
      show ?thesis unfolding 3 using half_cell_count by (simp add: default_resist_def)
    qed
  next
    fix k
    show "double_offset default_resist (?g k) = ?offset default_resist (?g k)"
      using zero_displacement eighth_displacement minus_eighth_displacement
        sixteenth_displacement by simp
  qed
  also have "\<dots> = ([[0, 1, 1], [1, 0, 0]], 8)" by code_simp
  finally show ?thesis
    using cascade_truncates_double_values [OF r fin disp, of 0] r fin by simp
qed

text \<open>
  C7 as stated fails twice. With a displacement of 0.6 cells in x for each of the 3
  electrons of the middle cell, the code leaves all 3 in the middle cell; rounding to the
  nearest offset would move them one cell to the right. And a cell of value
  0.9374999999999999 sources 3 electrons under the yield 3.2, because the double product
  is 3.0, while floor(value * yield) of the exact product 2.99999999999999968 is 2.
\<close>

theorem cascade_rounding_counterexample:
  "simulate_electron_cascade default_resist (\<lambda>n. if even n then 1 / 16 else 0) 0 [[0, 1, 0]]
     = Inr ([[0, 3, 0]], 6)
   \<and> cascade_spec floor_count nearest_offset default_resist
        (\<lambda>n. if even n then 1 / 16 else 0) 0 [[0, 1, 0]]
     = ([[0, 0, 3]], 6)
   \<and> simulate_electron_cascade default_resist (\<lambda>n. 0) 0 [[0.9374999999999999]]
     = Inr ([[3]], 6)
   \<and> cascade_spec floor_count nearest_offset default_resist (\<lambda>n. 0) 0
        [[0.9374999999999999]]
     = ([[2]], 4)"
proof -
  let ?g = "\<lambda>n::nat. if even n then 1 / 16 else (0::real)"
  let ?pm = "[[0, 1, 0]] :: grid"
  let ?qm = "[[0.9374999999999999]] :: grid"
  have r: "rectangular ?pm" by code_simp
  have fin: "list_all (list_all (\<lambda>v. is_finite (double_mul (double_of v)
                                   (double_of (secondary_electron_yield default_resist))))) ?pm"
    using zero_cell_count [of "16 / 5"] unit_cell_count
    by (simp add: default_resist_def)
  have disp: "\<forall>k. is_finite (displacement default_resist (?g k))"
    using zero_displacement sixteenth_displacement by simp
  have "cascade_spec double_count double_offset default_resist ?g 0 ?pm
          = cascade_spec (\<lambda>v y. if v = 1 then 3 else 0) (\<lambda>rp z. 0) default_resist ?g 0 ?pm"
  proof (rule cascade_spec_cong [OF r])
    fix v assume "v \<in> \<Union> (set ` set ?pm)"
    then show "double_count v (secondary_electron_yield default_resist)
                 = (if v = 1 then 3 else 0)"
      using zero_cell_count [of "16 / 5"] unit_cell_count
      by (auto simp: default_resist_def)
  next
    fix k
    show "double_offset default_resist (?g k) = 0"
      using zero_displacement sixteenth_displacement by simp
  qed
  also have "\<dots> = ([[0, 3, 0]], 6)" by code_simp
  finally have a: "simulate_electron_cascade default_resist ?g 0 ?pm = Inr ([[0, 3, 0]], 6)"
    using cascade_loops_refine [OF r fin disp, of 0] by simp
  have b: "cascade_spec floor_count nearest_offset default_resist ?g 0 ?pm = ([[0, 0, 3]], 6)"
    by code_simp
  have rq: "rectangular ?qm" by code_simp
  have finq: "list_all (list_all (\<lambda>v. is_finite (double_mul (double_of v)
                                   (double_of (secondary_electron_yield default_resist))))) ?qm"
    using near_unit_cell_count by (simp add: default_resist_def)
  have dispq: "\<forall>k::nat. is_finite (displacement default_resist ((\<lambda>n. 0) k))"
    using zero_displacement by simp
  have "cascade_spec double_count double_offset default_resist (\<lambda>n. 0) 0 ?qm
          = cascade_spec (\<lambda>v y. 3) (\<lambda>rp z. 0) default_resist (\<lambda>n. 0) 0 ?qm"
  proof (rule cascade_spec_cong [OF rq])
    fix v assume "v \<in> \<Union> (set ` set ?qm)"
    then have v: "v = 9374999999999999 / 10000000000000000" by simp
    show "double_count v (secondary_electron_yield default_resist) = 3"
      unfolding v using near_unit_cell_count by (simp add: default_resist_def)
  next
    fix k :: nat
    show "double_offset default_resist 0 = 0"
      using zero_displacement by simp
  qed
  also have "\<dots> = ([[3]], 6)" by code_simp
  finally have c: "simulate_electron_cascade default_resist (\<lambda>n. 0) 0 ?qm = Inr ([[3]], 6)"
    using cascade_loops_refine [OF rq finq dispq, of 0] by simp
  have d: "cascade_spec floor_count nearest_offset default_resist (\<lambda>n. 0) 0 ?qm = ([[2]], 4)"
    by code_simp
  from a b c d show ?thesis by simp
qed

subsection \<open>The total of the electron map\<close>

lemma sum_list_real: "sum_list (map (\<lambda>x. real (f x)) xs) = real (sum_list (map f xs))"
  by (induction xs) simp_all

lemma deposited_total:
  "np_sum (deposited h w ts) =
     real (sum_list (map (\<lambda>y. sum_list (map (\<lambda>x. count_list ts (int x, int y)) [0..<w]))
                      [0..<h]))"
  by (simp add: np_sum_def deposited_def o_def sum_list_real)

lemma whole_number_off_yield:
  fixes n :: nat
  shows "\<not> \<bar>real n - 3.2\<bar> \<le> 0.06 * 3.2"
proof (cases "n \<le> 3")
  case True
  then have "real n \<le> 3" by simp
  then show ?thesis by simp
next
  case False
  then have "4 \<le> real n" by simp
  then show ?thesis by simp
qed

text \<open>
  The electron map only ever holds counts, so its total is a whole number and is never
  within 6 percent of 3.2, whatever the photon map and the draws.
\<close>

lemma electron_total_off_yield:
  assumes "rectangular pm"
    and "list_all (list_all (\<lambda>v. is_finite (double_mul (double_of v)
                                   (double_of (secondary_electron_yield rp))))) pm"
    and "\<forall>k. is_finite (displacement rp (g k))"
    and "simulate_electron_cascade rp g pos pm = Inr (em, pos')"
  shows "\<not> \<bar>np_sum em - 3.2\<bar> \<le> 0.06 * 3.2"
proof -
  from cascade_loops_refine [OF assms(1-3), of pos] assms(4)
  have "cascade_spec double_count double_offset rp g pos pm = (em, pos')" by simp
  then have "em = fst (cascade_spec double_count double_offset rp g pos pm)" by simp
  then show ?thesis
    by (simp only: cascade_spec_def Let_def fst_conv deposited_total whole_number_off_yield
        not_False_eq_True)
qed

text \<open>
  C6 at the code: a 3 by 3 photon map with the single value 1 in the middle and draws that
  displace no electron give int(1 * 3.2) = 3 electrons, all deposited, a total of 3, and
  3 is 6.25 percent away from 3.2.
\<close>

theorem single_photon_total_is_three:
  "simulate_electron_cascade default_resist (\<lambda>n. 0) 0 [[0, 0, 0], [0, 1, 0], [0, 0, 0]]
     = Inr ([[0, 0, 0], [0, 3, 0], [0, 0, 0]], 6)
   \<and> map_sum id (\<lambda>r. np_sum (fst r))
       (simulate_electron_cascade default_resist (\<lambda>n. 0) 0
          [[0, 0, 0], [0, 1, 0], [0, 0, 0]]) = Inr 3
   \<and> \<not> \<bar>3 - 3.2\<bar> \<le> 0.06 * (3.2 :: real)"
proof -
  let ?pm = "[[0, 0, 0], [0, 1, 0], [0, 0, 0]] :: grid"
  have r: "rectangular ?pm" by code_simp
  have fin: "list_all (list_all (\<lambda>v. is_finite (double_mul (double_of v)
                                   (double_of (secondary_electron_yield default_resist))))) ?pm"
    using zero_cell_count [of "16 / 5"] unit_cell_count
    by (simp add: default_resist_def)
  have disp: "\<forall>k::nat. is_finite (displacement default_resist ((\<lambda>n. 0) k))"
    using zero_displacement by simp
  have "cascade_spec double_count double_offset default_resist (\<lambda>n. 0) 0 ?pm
          = cascade_spec (\<lambda>v y. if v = 1 then 3 else 0) (\<lambda>rp z. 0) default_resist (\<lambda>n. 0) 0 ?pm"
  proof (rule cascade_spec_cong [OF r])
    fix v assume "v \<in> \<Union> (set ` set ?pm)"
    then show "double_count v (secondary_electron_yield default_resist)
                 = (if v = 1 then 3 else 0)"
      using zero_cell_count [of "16 / 5"] unit_cell_count
      by (auto simp: default_resist_def)
  next
    fix k :: nat
    show "double_offset default_resist 0 = 0"
      using zero_displacement by simp
  qed
  also have "\<dots> = ([[0, 0, 0], [0, 3, 0], [0, 0, 0]], 6)" by code_simp
  finally have run: "simulate_electron_cascade default_resist (\<lambda>n. 0) 0 ?pm
                       = Inr ([[0, 0, 0], [0, 3, 0], [0, 0, 0]], 6)"
    using cascade_loops_refine [OF r fin disp, of 0] by simp
  show ?thesis by (simp add: run np_sum_def)
qed

subsection \<open>The pipeline under the default resist\<close>











lemma stochastic_metrics_returns:
  assumes "p \<noteq> []" and "hd p \<noteq> []"
  shows "\<exists>sm. calculate_stochastic_metrics p cd = Inr sm"
proof -
  from assms obtain r rs where p: "p = r # rs" and "r \<noteq> []" by (cases p) auto
  then have "0 < shape_height p * shape_width p"
    by (simp add: shape_height_def shape_width_def)
  then have "real (shape_height p * shape_width p) \<noteq> 0"
    by (simp only: of_nat_eq_0_iff)
  then show ?thesis
    by (simp add: calculate_stochastic_metrics_def Let_def nm_per_pixel_def)
qed

lemma row_lengths_update:
  assumes "i < length a \<Longrightarrow> length r = length (a ! i)"
  shows "map length (a[i := r]) = map length a"
proof (cases "i < length a")
  case True
  with assms show ?thesis by (simp add: map_update list_update_same_conv)
next
  case False
  then have "length a \<le> i" by simp
  then show ?thesis by (simp add: list_update_beyond)
qed

lemma row_lengths_deposit: "map length (deposit h w nx ny em) = map length em"
  by (simp add: deposit_def row_lengths_update)

lemma for_each_Cons:
  "for_each body (x # xs) st = (case body x st of Inl e \<Rightarrow> Inl e | Inr s \<Rightarrow> for_each body xs s)"
  by (cases "body x st") (simp_all add: for_each_def fold_raised)

lemma for_each_invariant:
  assumes "\<And>x s s'. body x s = Inr s' \<Longrightarrow> P s \<Longrightarrow> P s'"
    and "P st" and "for_each body xs st = Inr s'"
  shows "P s'"
  using assms(2,3)
proof (induction xs arbitrary: st)
  case Nil
  then show ?case by (simp add: for_each_def)
next
  case (Cons x xs)
  then show ?case
    by (cases "body x st") (auto simp: for_each_Cons dest: assms(1))
qed

lemma for_each_raises:
  assumes "\<And>x s. body x s \<noteq> Inl e"
  shows "for_each body xs st \<noteq> Inl e"
proof (induction xs arbitrary: st)
  case Nil
  then show ?case by (simp add: for_each_def)
next
  case (Cons x xs)
  then show ?case
    using assms [of x st] by (cases "body x st") (simp_all add: for_each_Cons)
qed

lemma py_int_double_raises: "py_int_double v \<noteq> Inl ZeroDivisionError"
  by (cases v) simp_all

lemma scatter_electron_raises:
  "scatter_electron rp g h w x y st \<noteq> Inl ZeroDivisionError"
  using py_int_double_raises
  by (auto simp: scatter_electron_def Let_def split: prod.splits sum.splits)

lemma cascade_cell_raises: "cascade_cell rp g pm h w y x st \<noteq> Inl ZeroDivisionError"
  using py_int_double_raises
  by (auto simp: cascade_cell_def for_each_raises scatter_electron_raises split: sum.splits)

lemma cascade_raises: "simulate_electron_cascade rp g pos pm \<noteq> Inl ZeroDivisionError"
  by (simp add: simulate_electron_cascade_def Let_def for_each_raises cascade_cell_raises)

lemma row_lengths_scatter:
  "scatter_electron rp g h w x y st = Inr st' \<Longrightarrow> map length (fst st') = map length (fst st)"
  by (auto simp: scatter_electron_def Let_def row_lengths_deposit split: prod.splits sum.splits)

lemma row_lengths_cascade_cell:
  assumes "cascade_cell rp g pm h w y x st = Inr st'"
  shows "map length (fst st') = map length (fst st)"
proof (cases "np_positive (double_of (pm ! y ! x))")
  case False
  with assms show ?thesis by (simp add: cascade_cell_def)
next
  case True
  with assms obtain n where
    "for_each (\<lambda>_. scatter_electron rp g h w x y) [0..<n] st = Inr st'"
    by (auto simp: cascade_cell_def split: sum.splits)
  then show ?thesis
    by (rule for_each_invariant [where P = "\<lambda>s. map length (fst s) = map length (fst st)",
          rotated 2])
       (simp_all add: row_lengths_scatter)
qed

lemma row_lengths_cascade:
  assumes "simulate_electron_cascade rp g pos pm = Inr (em, pos')"
  shows "map length em = map length pm"
proof -
  let ?P = "\<lambda>s :: grid \<times> nat. map length (fst s) = map length pm"
  have row: "?P s'" if "for_each (cascade_cell rp g pm h w y) xs s = Inr s'" "?P s"
    for h w y xs s s'
    using that(1)
    by (rule for_each_invariant [where P = ?P, rotated 2])
       (simp_all add: row_lengths_cascade_cell that(2))
  have "?P (em, pos')"
    using assms unfolding simulate_electron_cascade_def Let_def
    by (rule for_each_invariant [where P = ?P, rotated 2])
       (auto simp: np_zeros_like_def o_def intro: row)
  then show ?thesis by simp
qed

lemma row_lengths_fold_plain:
  assumes "\<And>x a. map length (f x a) = map length a"
  shows "map length (fold f xs a) = map length a"
  by (induction xs arbitrary: a) (simp_all add: assms)

lemma row_lengths_set_cell: "map length (set_cell a y x v) = map length a"
  by (simp add: set_cell_def row_lengths_update)

lemma row_lengths_chemistry:
  "map length (simulate_chemical_reactions rp em)
     = replicate (shape_height em) (shape_width em)"
  by (simp add: simulate_chemical_reactions_def Let_def row_lengths_fold_plain
      row_lengths_set_cell)

lemma has_cell_iff: "(p \<noteq> [] \<and> hd p \<noteq> []) = (map length p \<noteq> [] \<and> hd (map length p) \<noteq> 0)"
  by (cases p) simp_all

text \<open>
  A run whose cascade returns returns itself whenever the target pattern has a cell and
  the blur does not empty an array that has one: the division by the cell count does not
  raise then. What the cascade can raise is the OverflowError or ValueError of
  \<open>int\<close>, never a ZeroDivisionError.
\<close>

lemma run_full_simulation_returns:
  assumes blur: "\<And>s a. a \<noteq> [] \<Longrightarrow> hd a \<noteq> [] \<Longrightarrow> gf s a \<noteq> [] \<and> hd (gf s a) \<noteq> []"
    and tp: "tp \<noteq> []" "hd tp \<noteq> []"
  shows "run_full_simulation gf g pos m tp cd t \<noteq> Inl ZeroDivisionError"
proof -
  obtain stats m1 where ps: "calculate_photon_statistics m
      (np_sum tp * nm_per_pixel\<^sup>2 * (1 / 10 ^ 6)) = (stats, m1)"
    by (cases "calculate_photon_statistics m (np_sum tp * nm_per_pixel\<^sup>2 * (1 / 10 ^ 6))")
  let ?photons = "np_scale (np_scale (gf (15 / nm_per_pixel) tp)
                     (absorption_coefficient (resist m1))) (stat_photons_per_nm2 stats)"
  show ?thesis
  proof (cases "simulate_electron_cascade (resist m1) g pos ?photons")
    case (Inl e)
    with cascade_raises [of "resist m1" g pos ?photons] show ?thesis
      unfolding run_full_simulation_def Let_def ps prod.case by simp
  next
    case (Inr ep)
    obtain electrons pos1 where ep: "ep = (electrons, pos1)" by (cases ep)
    note ec = Inr [unfolded ep]
    let ?acid = "simulate_chemical_reactions (resist m1) electrons"
    let ?final = "simulate_development (calculate_development_rate (resist m1)
                    (simulate_acid_diffusion gf (resist m1) ?acid)) t"
    from blur [OF tp] have "?photons \<noteq> [] \<and> hd ?photons \<noteq> []"
      by (simp add: np_scale_def hd_map)
    then have "map length ?photons \<noteq> [] \<and> hd (map length ?photons) \<noteq> 0"
      using has_cell_iff [of ?photons] by blast
    moreover have "map length electrons = map length ?photons"
      using row_lengths_cascade [OF ec] .
    ultimately have "electrons \<noteq> [] \<and> hd electrons \<noteq> []"
      using has_cell_iff [of electrons] by simp
    then have "map length ?acid \<noteq> [] \<and> hd (map length ?acid) \<noteq> 0"
      by (cases electrons)
         (simp_all add: row_lengths_chemistry shape_height_def shape_width_def)
    then have "?acid \<noteq> [] \<and> hd ?acid \<noteq> []"
      using has_cell_iff [of ?acid] by blast
    then have "gf (acid_diffusion_length_nm (resist m1) / nm_per_pixel) ?acid \<noteq> []
               \<and> hd (gf (acid_diffusion_length_nm (resist m1) / nm_per_pixel) ?acid) \<noteq> []"
      using blur by blast
    then have "?final \<noteq> [] \<and> hd ?final \<noteq> []"
      by (simp add: simulate_development_cells calculate_development_rate_cells
          simulate_acid_diffusion_def hd_map)
    then obtain sm where sm: "calculate_stochastic_metrics ?final cd = Inr sm"
      using stochastic_metrics_returns by blast
    show ?thesis
      unfolding run_full_simulation_def Let_def ps prod.case ec sum.case sm by simp
  qed
qed










subsection \<open>Chemistry of an unknown resist type\<close>

text \<open>
  C2, as the code has it: for a resist type that is neither CAR nor MeOx neither branch of
  simulate_chemical_reactions runs, and the function returns the array of zeros it
  starts from, of the height and width of the electron map, whatever the electron map
  holds. The function has no raising statement, so it never fails.
\<close>

theorem unknown_chemistry_zero_map:
  assumes "rtype rp \<noteq> ''CAR''" and "rtype rp \<noteq> ''MeOx''"
  shows "simulate_chemical_reactions rp em =
           replicate (shape_height em) (replicate (shape_width em) 0)"
  using assms by (simp add: simulate_chemical_reactions_def Let_def)

theorem unknown_chemistry_zero_map_witness:
  "rtype (default_resist\<lparr>rtype := ''PMMA''\<rparr>) \<noteq> ''CAR''
   \<and> rtype (default_resist\<lparr>rtype := ''PMMA''\<rparr>) \<noteq> ''MeOx''
   \<and> simulate_chemical_reactions (default_resist\<lparr>rtype := ''PMMA''\<rparr>) [[1, 2, 0], [3, 4, 5]]
       = [[0, 0, 0], [0, 0, 0]]"
proof -
  have "replicate (shape_height [[1, 2, 0], [3, 4, 5]])
          (replicate (shape_width [[1, 2, 0], [3, 4, 5]]) 0) = [[0, 0, 0], [0, 0, 0 :: real]]"
    by code_simp
  then show ?thesis
    using unknown_chemistry_zero_map
      [of "default_resist\<lparr>rtype := ''PMMA''\<rparr>" "[[1, 2, 0], [3, 4, 5]]"]
    by simp
qed

text \<open>
  C2 as stated fails: with the resist type PMMA a non-zero electron map gives a returned
  all-zero acid map, not a configuration error.
\<close>

theorem unknown_chemistry_counterexample:
  "simulate_chemical_reactions (default_resist\<lparr>rtype := ''PMMA''\<rparr>) [[1, 2], [3, 4]]
     = [[0, 0], [0, 0]]"
  by code_simp

subsection \<open>Photon statistics\<close>

lemma photons_per_nm2_value:
  "stat_photons_per_nm2 (fst (calculate_photon_statistics m a))
     = dose_mJ_cm2 (tool m) * (1 / 10 ^ 3) / (92 * (1.602 / 10 ^ 19)) * (1 / 10 ^ 14)"
  by (simp add: calculate_photon_statistics_def Let_def eV_per_photon_def)

text \<open>
  C5 at the code: for every model at dose 30 mJ/cm2 and every target area,
  calculate_photon_statistics reports 125000/6141 (about 20.35) photons per nm2, which is
  more than 16 percent away from 24.5 and so not within 2 percent of it.
\<close>

theorem photons_per_nm2_at_dose_30:
  "stat_photons_per_nm2
     (fst (calculate_photon_statistics (m\<lparr>tool := (tool m)\<lparr>dose_mJ_cm2 := 30\<rparr>\<rparr>) a))
     = 125000 / 6141
   \<and> \<not> \<bar>125000 / 6141 - 24.5\<bar> / 24.5 < (0.02 :: real)
   \<and> \<bar>125000 / 6141 - 24.5\<bar> / 24.5 > (0.16 :: real)"
  by (simp add: photons_per_nm2_value)

text \<open>
  C8, as the code has it: for a target area \<le> 0 and a positive dose, total photons is the
  product photons per nm2 * area * 10^6, which is 0 at area 0 and negative below; shot
  noise is 0 at area 0 and the NaN of a negative square root below; relative shot noise is
  the NaN that the division shot noise / total photons itself produces (0/0 at area 0).
\<close>

theorem nonpositive_area_statistics:
  assumes "a \<le> 0" and "0 < dose_mJ_cm2 (tool m)"
  shows "total_photons (fst (calculate_photon_statistics m a))
           = stat_photons_per_nm2 (fst (calculate_photon_statistics m a)) * (a * 10 ^ 6)
         \<and> total_photons (fst (calculate_photon_statistics m a)) \<le> 0
         \<and> shot_noise (fst (calculate_photon_statistics m a))
             = (if a = 0 then Num 0 else NaN)
         \<and> relative_shot_noise (fst (calculate_photon_statistics m a)) = NaN"
proof -
  define p where "p = dose_mJ_cm2 (tool m) * (1 / 10 ^ 3) / (eV_per_photon * (1.602 / 10 ^ 19))
                        * (1 / 10 ^ 14)"
  have p: "0 < p" using assms(2) by (simp add: p_def eV_per_photon_def)
  have total: "total_photons (fst (calculate_photon_statistics m a)) = p * (a * 10 ^ 6)"
    and per: "stat_photons_per_nm2 (fst (calculate_photon_statistics m a)) = p"
    and shot: "shot_noise (fst (calculate_photon_statistics m a)) = np_sqrt (p * (a * 10 ^ 6))"
    and rel: "relative_shot_noise (fst (calculate_photon_statistics m a))
                = np_true_divide (np_sqrt (p * (a * 10 ^ 6))) (p * (a * 10 ^ 6))"
    by (simp_all only: calculate_photon_statistics_def Let_def p_def fst_conv
        photon_stats.select_convs)
  show ?thesis
  proof (cases "a = 0")
    case True
    then show ?thesis unfolding total per shot rel by (simp add: np_sqrt_def)
  next
    case False
    with assms(1) have "a < 0" by simp
    with p have "p * (a * 10 ^ 6) < 0" by (simp add: mult_pos_neg)
    with False show ?thesis unfolding total per shot rel by (simp add: np_sqrt_def)
  qed
qed

theorem nonpositive_area_statistics_witness:
  "(- 1 :: real) \<le> 0 \<and> 0 < dose_mJ_cm2 (tool (EUVExposureModel_init None None))
   \<and> total_photons (fst (calculate_photon_statistics (EUVExposureModel_init None None) (- 1)))
       = - (125000000000 / 6141)
   \<and> shot_noise (fst (calculate_photon_statistics (EUVExposureModel_init None None) (- 1))) = NaN
   \<and> relative_shot_noise
        (fst (calculate_photon_statistics (EUVExposureModel_init None None) (- 1))) = NaN"
  using nonpositive_area_statistics [of "- 1" "EUVExposureModel_init None None"]
  by (simp add: photons_per_nm2_value EUVExposureModel_init_def default_tool_def)

text \<open>
  C8 as stated fails: at target area -1 total photons is negative, not 0, and shot noise
  is NaN, not 0.
\<close>

theorem nonpositive_area_counterexample:
  "(- 1 :: real) \<le> 0
   \<and> total_photons (fst (calculate_photon_statistics (EUVExposureModel_init None None) (- 1)))
       \<noteq> 0
   \<and> shot_noise (fst (calculate_photon_statistics (EUVExposureModel_init None None) (- 1)))
       \<noteq> Num 0"
  by (simp add: calculate_photon_statistics_def Let_def EUVExposureModel_init_def
      default_tool_def eV_per_photon_def np_sqrt_def)

subsection \<open>Metrics of a pattern without a line\<close>

lemma few_edges_cd_undefined:
  assumes "length (edge_positions_of p) < 2"
    and "calculate_stochastic_metrics p cd = Inr sm"
  shows "m_ler_nm sm = 0 \<and> m_cd_error_nm sm = NaN"
proof -
  from assms(1) have "np_diff (map int (edge_positions_of p)) = []"
    by (cases "edge_positions_of p"; cases "tl (edge_positions_of p)")
       (auto simp: np_diff_def)
  with assms show ?thesis
    by (auto simp: calculate_stochastic_metrics_def Let_def np_mean_def split: if_splits)
qed

text \<open>
  C3 at the code: on a 3 by 3 pattern of ones (no edge at all) calculate_stochastic_metrics
  returns LER 0 and the NaN of the mean of an empty array as cd_error_nm.
\<close>

theorem no_edges_cd_error_is_nan:
  "edge_positions_of [[1, 1, 1], [1, 1, 1], [1, 1, 1]] = []
   \<and> calculate_stochastic_metrics [[1, 1, 1], [1, 1, 1], [1, 1, 1]] 16
       = Inr \<lparr> m_ler_nm = 0, m_cd_error_nm = NaN, m_stochastic_defects_per_um2 = 0,
               m_pattern_fidelity = 1 \<rparr>"
proof -
  have edges: "edge_positions_of [[1, 1, 1], [1, 1, 1], [1, 1, 1]] = []"
    by code_simp
  have defects: "count_defects [[1, 1, 1], [1, 1, 1], [1, 1, 1]] = 0"
    by code_simp
  show ?thesis
    by (simp add: edges defects calculate_stochastic_metrics_def np_diff_def np_mean_def
        shape_height_def shape_width_def nm_per_pixel_def)
qed


subsection \<open>The sweep and the focus axis\<close>

lemma sweep_point_focus:
  "sweep_point gf g tp cd i dose (j, f1) acc = sweep_point gf g tp cd i dose (j, f2) acc"
  by (cases acc) (simp_all add: sweep_point_def Let_def)

lemma sweep_row_focus:
  assumes "length fs1 = length fs2"
  shows "fold (sweep_point gf g tp cd i dose) (enumerate n fs1) acc
           = fold (sweep_point gf g tp cd i dose) (enumerate n fs2) acc"
  using assms
proof (induction fs1 fs2 arbitrary: n acc rule: list_induct2)
  case Nil
  then show ?case by simp
next
  case (Cons f1 fs1 f2 fs2)
  have "sweep_point gf g tp cd i dose (n, f1) acc = sweep_point gf g tp cd i dose (n, f2) acc"
    by (rule sweep_point_focus)
  with Cons.IH show ?case by simp
qed

lemma length_np_linspace: "length (np_linspace a b n) = n"
  by (simp add: np_linspace_def)

lemma sweep_rows_focus:
  "(\<lambda>(i, dose). fold (sweep_point gf g tp cd i dose) (enumerate 0 (np_linspace a1 b1 n)))
     = (\<lambda>(i, dose). fold (sweep_point gf g tp cd i dose) (enumerate 0 (np_linspace a2 b2 n)))"
  by (intro ext) (simp add: split_def sweep_row_focus length_np_linspace)

text \<open>
  C4: two calls of calculate_process_window on the same model, random stream, target CD,
  dose range and step count that differ in the focus range only either raise the same
  error or return results that agree in everything but the focus axis itself: the dose
  axis, the CD-error and LER matrices, the window matrix, the window area, and the model
  and generator state they leave behind.
\<close>

theorem process_window_ignores_focus:
  "map_sum id (\<lambda>(r, s). (r\<lparr>focus_values := []\<rparr>, s))
     (calculate_process_window gf g pos m target_cd_nm dose_range focus_range1 steps)
   = map_sum id (\<lambda>(r, s). (r\<lparr>focus_values := []\<rparr>, s))
     (calculate_process_window gf g pos m target_cd_nm dose_range focus_range2 steps)"
proof -
  obtain a1 b1 where f1: "(case focus_range1 of None \<Rightarrow> (- 40, 40) | Some r \<Rightarrow> r) = (a1, b1)"
    by (cases "case focus_range1 of None \<Rightarrow> (- 40, 40 :: real) | Some r \<Rightarrow> r") auto
  obtain a2 b2 where f2: "(case focus_range2 of None \<Rightarrow> (- 40, 40) | Some r \<Rightarrow> r) = (a2, b2)"
    by (cases "case focus_range2 of None \<Rightarrow> (- 40, 40 :: real) | Some r \<Rightarrow> r") auto
  show ?thesis
    unfolding calculate_process_window_def Let_def f1 f2 fst_conv snd_conv
      sweep_rows_focus [of gf g _ target_cd_nm a1 b1 steps a2 b2]
    by (simp split: sum.splits)
qed

end
